theory Spec2Isabelle
  imports Main
begin

section \<open>Characters and strings of the shell script and of the supervisor\<close>

text \<open>
  Strings are byte lists. Case folding is the ASCII one (\<open>tr '[:upper:]' '[:lower:]'\<close>,
  \<open>grep -i\<close> and \<open>toUpperCase\<close> on the ASCII phase tags the driver prints).
\<close>

definition is_digit :: "char \<Rightarrow> bool" where
  "is_digit c = (c \<in> set ''0123456789'')"

definition lower_char :: "char \<Rightarrow> char" where
  "lower_char c =
     (case map_of (zip ''ABCDEFGHIJKLMNOPQRSTUVWXYZ'' ''abcdefghijklmnopqrstuvwxyz'') c of
        Some d \<Rightarrow> d | None \<Rightarrow> c)"

definition upper_char :: "char \<Rightarrow> char" where
  "upper_char c =
     (case map_of (zip ''abcdefghijklmnopqrstuvwxyz'' ''ABCDEFGHIJKLMNOPQRSTUVWXYZ'') c of
        Some d \<Rightarrow> d | None \<Rightarrow> c)"

definition to_lower :: "string \<Rightarrow> string" where
  "to_lower s = map lower_char s"

definition toUpperCase :: "string \<Rightarrow> string" where
  "toUpperCase s = map upper_char s"

text \<open>The line feed, and the characters \<open>[[:space:]]\<close> and C's \<open>isspace\<close> accept.\<close>

definition nl :: char where
  "nl = CHR 0x0A"

definition is_space :: "char \<Rightarrow> bool" where
  "is_space c = (c \<in> set [CHR '' '', CHR 0x09, CHR 0x0A, CHR 0x0B, CHR 0x0C, CHR 0x0D])"

definition is_blank :: "char \<Rightarrow> bool" where
  "is_blank c = (c = CHR '' '' \<or> c = CHR 0x09)"

section \<open>Integers as the shell's \<open>test\<close> builtin reads them\<close>

text \<open>
  \<open>[ a -le b ]\<close> reads each operand with \<open>strtoimax\<close>: leading white space, an optional
  sign, at least one decimal digit, then trailing blanks only. A value outside the range of
  a 64-bit signed integer, or any other text, is an error: the test prints
  "integer expression expected" and is false (status 2).
\<close>

definition digit_val :: "char \<Rightarrow> int" where
  "digit_val c = int (of_char c) - 48"

definition decimal :: "string \<Rightarrow> int" where
  "decimal s = foldl (\<lambda>a c. a * 10 + digit_val c) 0 s"

definition in_intmax :: "int \<Rightarrow> bool" where
  "in_intmax v = (- (2 ^ 63) \<le> v \<and> v < 2 ^ 63)"

definition unsigned_number :: "string \<Rightarrow> int option" where
  "unsigned_number s =
     (let ds = takeWhile is_digit s; rest = dropWhile is_digit s
      in if ds = [] \<or> dropWhile is_blank rest \<noteq> [] then None else Some (decimal ds))"

definition legal_number :: "string \<Rightarrow> int option" where
  "legal_number s =
     (let t = dropWhile is_space s;
          r = (case t of
                 [] \<Rightarrow> None
               | c # u \<Rightarrow>
                   if c = CHR ''-'' then map_option uminus (unsigned_number u)
                   else if c = CHR ''+'' then unsigned_number u
                   else unsigned_number t)
      in case r of None \<Rightarrow> None | Some v \<Rightarrow> if in_intmax v then Some v else None)"

text \<open>The three comparisons of the script; an unreadable operand makes each of them false.\<close>

definition test_gt :: "string \<Rightarrow> string \<Rightarrow> bool" where
  "test_gt a b = (case (legal_number a, legal_number b) of (Some x, Some y) \<Rightarrow> x > y | _ \<Rightarrow> False)"

definition test_lt :: "string \<Rightarrow> string \<Rightarrow> bool" where
  "test_lt a b = (case (legal_number a, legal_number b) of (Some x, Some y) \<Rightarrow> x < y | _ \<Rightarrow> False)"

definition test_le :: "string \<Rightarrow> string \<Rightarrow> bool" where
  "test_le a b = (case (legal_number a, legal_number b) of (Some x, Some y) \<Rightarrow> x \<le> y | _ \<Rightarrow> False)"

definition test_ge :: "string \<Rightarrow> string \<Rightarrow> bool" where
  "test_ge a b = (case (legal_number a, legal_number b) of (Some x, Some y) \<Rightarrow> x \<ge> y | _ \<Rightarrow> False)"

section \<open>load_config: the retry bound\<close>

text \<open>
  \<open>load_config\<close> unsets \<open>MAX_RETRIES\<close>, sources the configuration file (which may set it:
  \<open>cfg\<close>), defaults an unset or empty value to 3, replaces a value that is not all digits
  by 3, lowers a value above 3 to 3 and raises a value below 1 to 1. Only afterwards a
  non-empty \<open>OPENCODE_LOOP_MAX_RETRIES\<close> (\<open>env\<close>) replaces the result.
\<close>

definition all_digits :: "string \<Rightarrow> bool" where
  "all_digits s = (s \<noteq> [] \<and> list_all is_digit s)"

definition default_if_null :: "string option \<Rightarrow> string \<Rightarrow> string" where
  "default_if_null v d = (case v of None \<Rightarrow> d | Some s \<Rightarrow> if s = [] then d else s)"

definition clamp_max_retries :: "string option \<Rightarrow> string" where
  "clamp_max_retries cfg =
     (let m0 = default_if_null cfg ''3'';
          m1 = (if \<not> all_digits m0 then ''3'' else m0);
          m2 = (if test_gt m1 ''3'' then ''3'' else m1);
          m3 = (if test_lt m2 ''1'' then ''1'' else m2)
      in m3)"

definition load_config_max_retries :: "string option \<Rightarrow> string option \<Rightarrow> string" where
  "load_config_max_retries cfg env =
     (let m = clamp_max_retries cfg
      in if default_if_null env [] \<noteq> [] then default_if_null env [] else m)"

section \<open>Lines and patterns of \<open>grep\<close>\<close>

text \<open>
  \<open>echo "$x" | grep ...\<close> hands \<open>grep\<close> the lines of \<open>x\<close>: the pieces between line
  feeds (\<open>echo\<close> terminates the last one).
\<close>

fun split_on :: "char \<Rightarrow> string \<Rightarrow> string list" where
  "split_on c [] = [[]]"
| "split_on c (x # xs) =
     (if x = c then [] # split_on c xs
      else (case split_on c xs of
              [] \<Rightarrow> [[x]]
            | l # ls \<Rightarrow> (x # l) # ls))"

definition lines_of :: "string \<Rightarrow> string list" where
  "lines_of s = split_on nl s"

text \<open>
  The patterns of the script are words, plus \<open>[[:space:]]*\<close> and \<open>[0-9]\<close> in the two HTTP
  status alternatives. \<open>grep -i\<close> compares letters case-insensitively.
\<close>

datatype atom = Ch char | SpaceStar | Digit

fun match_here :: "atom list \<Rightarrow> string \<Rightarrow> bool" where
  "match_here [] s = True"
| "match_here (Ch c # as) [] = False"
| "match_here (Ch c # as) (x # xs) = (lower_char x = lower_char c \<and> match_here as xs)"
| "match_here (Digit # as) [] = False"
| "match_here (Digit # as) (x # xs) = (is_digit x \<and> match_here as xs)"
| "match_here (SpaceStar # as) [] = match_here as []"
| "match_here (SpaceStar # as) (x # xs) =
     (match_here as (x # xs) \<or> (is_space x \<and> match_here (SpaceStar # as) xs))"

fun match_anywhere :: "atom list \<Rightarrow> string \<Rightarrow> bool" where
  "match_anywhere p [] = match_here p []"
| "match_anywhere p (x # xs) = (match_here p (x # xs) \<or> match_anywhere p xs)"

definition lit :: "string \<Rightarrow> atom list" where
  "lit w = map Ch w"

definition grep_q :: "atom list list \<Rightarrow> string \<Rightarrow> bool" where
  "grep_q pats s = list_ex (\<lambda>l. list_ex (\<lambda>p. match_anywhere p l) pats) (lines_of s)"

section \<open>is_network_error and retry_with_backoff\<close>

definition network_patterns :: "atom list list" where
  "network_patterns =
     [lit ''network'', lit ''timeout'', lit ''timed out'', lit ''connection'', lit ''connect:'',
      lit ''ETIMEDOUT'', lit ''ECONNRESET'', lit ''ECONNREFUSED'', lit ''ENOTFOUND'',
      lit ''EHOSTUNREACH'', lit ''temporary failure'', lit ''name resolution'',
      lit ''could not resolve host'', lit ''no route to host'', lit ''tls'', lit ''ssl'',
      lit ''x509'', lit ''handshake'', lit ''dial tcp'', lit ''i/o timeout'',
      lit ''unexpected eof'', lit ''service unavailable'', lit ''bad gateway'',
      lit ''gateway timeout'',
      lit ''http'' @ [SpaceStar, Ch CHR ''5'', Digit, Digit],
      lit ''http'' @ [SpaceStar] @ lit ''429'',
      lit ''rate limit'', lit ''secondary rate limit'']"

text \<open>
  \<open>is_network_error\<close> is \<open>echo "$output" | grep -Eiq '...'\<close> in a script that runs under
  \<open>set -o pipefail\<close>. \<open>grep -q\<close> leaves at the first matching line. When a line other than
  the last one matches, \<open>echo\<close> may still be writing at that moment; it is then killed by
  SIGPIPE, the pipeline has the status 141, and the function answers "no network error"
  although a line matched. Whether this happens depends on how the two processes are
  scheduled and on the size of the text: \<open>sigpipe\<close> says for which outputs \<open>echo\<close> is killed.
\<close>

definition line_matches :: "atom list list \<Rightarrow> string \<Rightarrow> bool" where
  "line_matches pats l = list_ex (\<lambda>p. match_anywhere p l) pats"

definition matches_before_last_line :: "atom list list \<Rightarrow> string \<Rightarrow> bool" where
  "matches_before_last_line pats s = list_ex (line_matches pats) (butlast (lines_of s))"

definition is_network_error :: "(string \<Rightarrow> bool) \<Rightarrow> string \<Rightarrow> bool" where
  "is_network_error sigpipe output =
     (grep_q network_patterns output \<and>
      \<not> (matches_before_last_line network_patterns output \<and> sigpipe output))"

text \<open>
  \<open>${RETRY_DELAYS[$delay_idx]:-${RETRY_DELAYS[-1]}}\<close>: the entry at the index when it is set
  and not empty, else the last entry. With an empty array the last entry is unbound and,
  under \<open>set -u\<close>, the shell exits (\<open>None\<close>).
\<close>

definition delay_for :: "string list \<Rightarrow> nat \<Rightarrow> string option" where
  "delay_for delays idx =
     (if idx < length delays \<and> delays ! idx \<noteq> [] then Some (delays ! idx)
      else if delays = [] then None
      else Some (last delays))"

text \<open>
  A command is the sequence of its runs. Run \<open>k\<close> (from 0) ends with an exit status; \<open>combined\<close>
  is what \<open>$("$@" 2>&1)\<close> captures. For an \<open>opencode run\<close> with detailed logging the output is
  streamed instead: two \<open>tee\<close> processes, one truncating and one appending, write standard
  output and standard error into one file, which is read back without waiting for them;
  \<open>stream_capture\<close> is what that file holds when it is read (text of one stream can be
  overwritten by the other or still be missing). The outcome records the status returned,
  how often the command ran, the arguments of \<open>sleep\<close> in order and what was echoed on
  success.
\<close>

record cmd_run =
  exit_status :: nat
  combined :: string
  stream_capture :: string

definition seen :: "bool \<Rightarrow> cmd_run \<Rightarrow> string" where
  "seen streaming r = (if streaming then stream_capture r else combined r)"

datatype shell_result = Returned nat | Aborted

record retry_outcome =
  result :: shell_result
  runs :: nat
  sleeps :: "string list"
  echoed :: "string option"

text \<open>\<open>attempt\<close> counts from 1; it is compared with the text of \<open>MAX_RETRIES\<close>.\<close>

definition attempt_le :: "nat \<Rightarrow> string \<Rightarrow> bool" where
  "attempt_le a maxr = (case legal_number maxr of Some m \<Rightarrow> int a \<le> m | None \<Rightarrow> False)"

definition attempt_ge :: "nat \<Rightarrow> string \<Rightarrow> bool" where
  "attempt_ge a maxr = (case legal_number maxr of Some m \<Rightarrow> int a \<ge> m | None \<Rightarrow> False)"

text \<open>
  \<open>log_detail\<close> is \<open>LOG_OPENCODE_DETAIL = 1\<close>, \<open>is_opencode_run\<close> says that the command is
  \<open>opencode run ...\<close>.
\<close>

function retry_loop ::
  "(string \<Rightarrow> bool) \<Rightarrow> bool \<Rightarrow> bool \<Rightarrow> string \<Rightarrow> string list \<Rightarrow> (nat \<Rightarrow> cmd_run) \<Rightarrow> nat
     \<Rightarrow> string list \<Rightarrow> retry_outcome" where
  "retry_loop sigpipe log_detail is_opencode_run maxr delays cmd attempt slept =
     (if \<not> attempt_le attempt maxr then
        \<lparr>result = Returned 1, runs = attempt - 1, sleeps = slept, echoed = None\<rparr>
      else
        (let r = cmd (attempt - 1);
             status = exit_status r;
             output = seen (log_detail \<and> is_opencode_run) r in
         if status = 0 then
           \<lparr>result = Returned 0, runs = attempt, sleeps = slept, echoed = Some output\<rparr>
         else if \<not> is_network_error sigpipe output then
           \<lparr>result = Returned status, runs = attempt, sleeps = slept, echoed = None\<rparr>
         else if attempt_ge attempt maxr then
           \<lparr>result = Returned status, runs = attempt, sleeps = slept, echoed = None\<rparr>
         else
           (case delay_for delays (attempt - 1) of
              None \<Rightarrow> \<lparr>result = Aborted, runs = attempt, sleeps = slept, echoed = None\<rparr>
            | Some delay \<Rightarrow>
                retry_loop sigpipe log_detail is_opencode_run maxr delays cmd (attempt + 1)
                  (slept @ [delay]))))"
  by pat_completeness auto
termination
  by (relation "measure (\<lambda>(sigpipe, log_detail, is_opencode_run, maxr, delays, cmd, attempt, slept).
        nat ((case legal_number maxr of Some m \<Rightarrow> m | None \<Rightarrow> 0) - int attempt))")
     (auto simp: attempt_le_def attempt_ge_def split: option.splits)

definition retry_with_backoff ::
  "(string \<Rightarrow> bool) \<Rightarrow> bool \<Rightarrow> bool \<Rightarrow> string \<Rightarrow> string list \<Rightarrow> (nat \<Rightarrow> cmd_run)
     \<Rightarrow> retry_outcome" where
  "retry_with_backoff sigpipe log_detail is_opencode_run maxr delays cmd =
     retry_loop sigpipe log_detail is_opencode_run maxr delays cmd 1 []"

text \<open>
  The delay the specification names for retry \<open>i\<close> (counted from 0): entry \<open>i\<close> of the list,
  the last entry beyond its length.
\<close>

definition delay_at :: "string list \<Rightarrow> nat \<Rightarrow> string" where
  "delay_at delays i = (if i < length delays then delays ! i else last delays)"

text \<open>
  What a run of the loop from attempt \<open>a\<close> with the sleeps \<open>slept\<close> so far must satisfy, for a
  bound \<open>m\<close>.
\<close>

definition retry_ok ::
  "(string \<Rightarrow> bool) \<Rightarrow> bool \<Rightarrow> int \<Rightarrow> string list \<Rightarrow> (nat \<Rightarrow> cmd_run) \<Rightarrow> nat \<Rightarrow> string list
     \<Rightarrow> retry_outcome \<Rightarrow> bool" where
  "retry_ok sigpipe streaming m delays cmd a slept r =
     (a \<le> runs r \<and> int (runs r) \<le> m \<and>
      result r = Returned (exit_status (cmd (runs r - 1))) \<and>
      sleeps r = slept @ map (delay_at delays) [a - 1 ..< runs r - 1] \<and>
      (\<forall>k. a - 1 \<le> k \<and> k < runs r - 1 \<longrightarrow>
           exit_status (cmd k) \<noteq> 0 \<and> is_network_error sigpipe (seen streaming (cmd k))) \<and>
      (int (runs r) < m \<longrightarrow>
         exit_status (cmd (runs r - 1)) = 0 \<or>
         \<not> is_network_error sigpipe (seen streaming (cmd (runs r - 1)))))"

text \<open>
  Two failures of a command. The first prints a connection reset on its first line and
  200000 more characters after it; \<open>echo\<close> is taken to be killed when more than a pipe's
  capacity of text follows. The second is an \<open>opencode run\<close> that reports the reset on standard
  error and something else on standard output, of which only the latter is in the stream
  file.
\<close>

definition reset_then_long_text :: string where
  "reset_then_long_text = ''fatal: read ECONNRESET'' @ [nl] @ replicate 200000 (CHR ''x'')"

definition killed_beyond_pipe :: "string \<Rightarrow> bool" where
  "killed_beyond_pipe output = (65536 < length output)"

definition reset_on_stderr :: cmd_run where
  "reset_on_stderr =
     \<lparr>exit_status = 1,
      combined = ''Error: read ECONNRESET'' @ [nl] @ ''session ended'',
      stream_capture = ''session ended''\<rparr>"

text \<open>A run that fails with the status and the text given, streamed or not.\<close>

definition failing :: "nat \<Rightarrow> string \<Rightarrow> cmd_run" where
  "failing n text = \<lparr>exit_status = n, combined = text, stream_capture = text\<rparr>"

section \<open>The data of the supervisor (shared/types.ts)\<close>

definition PIPELINE_PHASES :: "string list" where
  "PIPELINE_PHASES =
     [''CLONE'', ''SETUP'', ''PLAN'', ''IMPLEMENT'', ''REVIEW'', ''FIX'', ''COMMIT'', ''PUSH'', ''PR'']"

datatype PhaseStatus = pending | active | completed | skipped | failed

datatype RunStatus = running | run_completed | run_failed | stopped

datatype PrMergeStatus =
  pr_none | pr_checking | pr_ready | pr_conflict | pr_auto_merging | pr_merged | pr_failed

datatype RunMode = foreground | background

record LogEntry =
  timestamp :: string
  phase :: string
  message :: string
  raw :: string

text \<open>
  The fields of \<open>RunState\<close> that the supervisor reads or writes after a run was created.
  \<open>phases\<close> is a JavaScript object used as a dictionary from phase names to statuses.
  A \<open>null\<close> is \<open>None\<close>.
\<close>

record RunState =
  runId :: string
  branchName :: string
  status :: RunStatus
  currentPhase :: string
  phases :: "string \<rightharpoonup> PhaseStatus"
  logs :: "LogEntry list"
  prUrl :: "string option"
  prTitle :: "string option"
  prNumber :: "int option"
  prHeadRef :: "string option"
  prBaseRef :: "string option"
  prMergeStatus :: PrMergeStatus
  prMergeMessage :: "string option"
  finishedAt :: "nat option"
  pid :: "int option"
  planText :: "string option"
  runMode :: RunMode
  logFilePath :: "string option"
  logFileOffset :: nat
  autoMerge :: bool

definition MAX_LOGS_PER_RUN :: nat where
  "MAX_LOGS_PER_RUN = 10000"

section \<open>String operations of the supervisor\<close>

definition startsWith :: "string \<Rightarrow> string \<Rightarrow> bool" where
  "startsWith s p = (take (length p) s = p)"

fun str_includes :: "string \<Rightarrow> string \<Rightarrow> bool" where
  "str_includes [] p = (p = [])"
| "str_includes (x # xs) p = (startsWith (x # xs) p \<or> str_includes xs p)"

text \<open>\<open>trim\<close> removes white space at both ends (the ASCII white space of a byte string).\<close>

definition js_trim :: "string \<Rightarrow> string" where
  "js_trim s = rev (dropWhile is_space (rev (dropWhile is_space s)))"

text \<open>A regular expression's \<open>.\<close> accepts every character but a line terminator.\<close>

definition is_line_terminator :: "char \<Rightarrow> bool" where
  "is_line_terminator c = (c = CHR 0x0A \<or> c = CHR 0x0D)"

text \<open>
  A lazy group \<open>(.+?)\<close> followed by the literal \<open>sep\<close> and the rest of the expression \<open>k\<close>:
  the shortest non-empty text, without line terminators, after which \<open>sep\<close> and \<open>k\<close> match.
\<close>

fun lazy_group :: "string \<Rightarrow> string \<Rightarrow> string \<Rightarrow> (string \<Rightarrow> string \<Rightarrow> 'a option) \<Rightarrow> 'a option" where
  "lazy_group sep acc [] k = None"
| "lazy_group sep acc (x # xs) k =
     (if is_line_terminator x then None
      else if startsWith xs sep then
        (case k (acc @ [x]) (drop (length sep) xs) of
           Some r \<Rightarrow> Some r
         | None \<Rightarrow> lazy_group sep (acc @ [x]) xs k)
      else lazy_group sep (acc @ [x]) xs k)"

text \<open>\<open>LOG_LINE_REGEX = /^\[(.+?)\] \[(.+?)\] (.*)$/\<close>: the three groups of a match.\<close>

definition LOG_LINE_REGEX :: "string \<Rightarrow> (string \<times> string \<times> string) option" where
  "LOG_LINE_REGEX s =
     (case s of
        [] \<Rightarrow> None
      | c # rest \<Rightarrow>
          if c \<noteq> CHR ''['' then None
          else lazy_group ''] ['' [] rest
                 (\<lambda>g1 r1. lazy_group ''] '' [] r1
                    (\<lambda>g2 g3. if list_ex is_line_terminator g3 then None else Some (g1, g2, g3))))"

text \<open>\<open>PLAN_FILE_REGEX = /Plan saved to (.+)$/\<close>: the group of the leftmost match.\<close>

fun PLAN_FILE_REGEX :: "string \<Rightarrow> string option" where
  "PLAN_FILE_REGEX [] = None"
| "PLAN_FILE_REGEX (x # xs) =
     (let g = drop (length ''Plan saved to '') (x # xs)
      in if startsWith (x # xs) ''Plan saved to '' \<and> g \<noteq> [] \<and> \<not> list_ex is_line_terminator g
         then Some g else PLAN_FILE_REGEX xs)"

text \<open>\<open>PR_URL_REGEX = /PR created:\s*(https:\/\/\S+)/\<close>: the group of the leftmost match.\<close>

fun PR_URL_REGEX :: "string \<Rightarrow> string option" where
  "PR_URL_REGEX [] = None"
| "PR_URL_REGEX (x # xs) =
     (let r = dropWhile is_space (drop (length ''PR created:'') (x # xs));
          u = takeWhile (\<lambda>c. \<not> is_space c) (drop (length ''https://'') r)
      in if startsWith (x # xs) ''PR created:'' \<and> startsWith r ''https://'' \<and> u \<noteq> []
         then Some (''https://'' @ u) else PR_URL_REGEX xs)"

text \<open>\<open>/^Completed in \d+s/\<close>.\<close>

definition completed_in_match :: "string \<Rightarrow> bool" where
  "completed_in_match s =
     (let r = drop (length ''Completed in '') s
      in startsWith s ''Completed in '' \<and> takeWhile is_digit r \<noteq> [] \<and>
         startsWith (dropWhile is_digit r) ''s'')"

section \<open>The external world of the supervisor\<close>

text \<open>
  What the supervisor gets from outside: the ANSI stripper of the Anser library, the clock
  (as the number \<open>Date.now()\<close> and as the text put into synthetic log entries), the contents
  of a plan file (\<open>None\<close> when it does not exist or cannot be read), the bytes appended to a
  log file since an offset (\<open>None\<close> when reading throws), and whether signal 0 can be
  delivered to a process id.
\<close>

record world =
  ansiToText :: "string \<Rightarrow> string"
  now :: nat
  nowText :: string
  planFile :: "string \<Rightarrow> string option"
  readNewLogChunk :: "string \<Rightarrow> nat \<Rightarrow> (string \<times> nat) option"
  kill0 :: "int \<Rightarrow> bool"

definition isProcessAlive :: "world \<Rightarrow> int option \<Rightarrow> bool" where
  "isProcessAlive w p =
     (case p of None \<Rightarrow> False | Some n \<Rightarrow> if n \<le> 0 then False else kill0 w n)"

section \<open>The log stream parser\<close>

definition inferCompletedFromLogs :: "RunState \<Rightarrow> bool" where
  "inferCompletedFromLogs st =
     list_ex (\<lambda>entry. toUpperCase (phase entry) = ''DONE'' \<and> str_includes (message entry) ''Total duration:'')
       (logs st)"

definition createInitialPhases :: "bool \<Rightarrow> bool \<Rightarrow> (string \<rightharpoonup> PhaseStatus)" where
  "createInitialPhases skipPlan skipPr =
     foldl (\<lambda>ph p.
              if p = ''PLAN'' \<and> skipPlan then ph(p \<mapsto> skipped)
              else if (p = ''PR'' \<or> p = ''PUSH'') \<and> skipPr then ph(p \<mapsto> skipped)
              else ph(p \<mapsto> pending))
       Map.empty PIPELINE_PHASES"

definition parseLine :: "world \<Rightarrow> string \<Rightarrow> LogEntry option" where
  "parseLine w rawLine =
     (let clean = ansiToText w rawLine in
      case LOG_LINE_REGEX clean of
        Some (g1, g2, g3) \<Rightarrow> Some \<lparr>timestamp = g1, phase = g2, message = g3, raw = clean\<rparr>
      | None \<Rightarrow>
          if js_trim clean \<noteq> [] then
            Some \<lparr>timestamp = nowText w, phase = ''OUTPUT'', message = js_trim clean, raw = clean\<rparr>
          else None)"

text \<open>The loop \<open>for (const p of PIPELINE_PHASES) if (phases[p] === 'active' ...) phases[p] = s\<close>.\<close>

definition retire_active :: "(string \<Rightarrow> bool) \<Rightarrow> PhaseStatus \<Rightarrow> (string \<rightharpoonup> PhaseStatus) \<Rightarrow> (string \<rightharpoonup> PhaseStatus)" where
  "retire_active keep s ph0 =
     foldl (\<lambda>ph p. if ph p = Some active \<and> \<not> keep p then ph(p \<mapsto> s) else ph) ph0 PIPELINE_PHASES"

definition updatePhaseStatus :: "RunState \<Rightarrow> string \<Rightarrow> RunState" where
  "updatePhaseStatus st ph =
     (let phaseUpper = toUpperCase ph in
      if phaseUpper \<notin> set PIPELINE_PHASES then st
      else
        (let ph1 = retire_active (\<lambda>p. p = phaseUpper) completed (phases st);
             ph2 = (if ph1 phaseUpper \<noteq> Some skipped then ph1(phaseUpper \<mapsto> active) else ph1)
         in st\<lparr>phases := ph2, currentPhase := phaseUpper\<rparr>))"

definition markPhaseCompleted :: "RunState \<Rightarrow> string \<Rightarrow> RunState" where
  "markPhaseCompleted st ph =
     (let phaseUpper = toUpperCase ph in
      if phaseUpper \<in> set PIPELINE_PHASES \<and> phases st phaseUpper = Some active
      then st\<lparr>phases := (phases st)(phaseUpper \<mapsto> completed)\<rparr>
      else st)"

text \<open>
  \<open>handleLogEntry\<close>, the part that changes the run: the plan text, the bounded log, the
  phases and the pull-request fields.
\<close>

definition read_plan_text :: "world \<Rightarrow> LogEntry \<Rightarrow> RunState \<Rightarrow> RunState" where
  "read_plan_text w entry st =
     (if toUpperCase (phase entry) = ''PLAN'' then
        (case PLAN_FILE_REGEX (message entry) of
           None \<Rightarrow> st
         | Some g \<Rightarrow>
             (let planPath = js_trim g in
              if planPath = [] then st
              else (case planFile w planPath of
                      None \<Rightarrow> st
                    | Some content \<Rightarrow>
                        if js_trim content \<noteq> [] then st\<lparr>planText := Some (js_trim content)\<rparr>
                        else st)))
      else st)"

definition push_log :: "LogEntry \<Rightarrow> RunState \<Rightarrow> RunState" where
  "push_log entry st =
     (let ls = logs st @ [entry]
      in st\<lparr>logs := (if length ls > MAX_LOGS_PER_RUN then drop (length ls - MAX_LOGS_PER_RUN) ls else ls)\<rparr>)"

definition detect_phase :: "LogEntry \<Rightarrow> RunState \<Rightarrow> RunState" where
  "detect_phase entry st =
     (let ph = toUpperCase (phase entry) in
      if ph = ''DONE'' then
        (let st1 = st\<lparr>phases := retire_active (\<lambda>p. False) completed (phases st)\<rparr> in
         case PR_URL_REGEX (message entry) of
           Some url \<Rightarrow>
             st1\<lparr>prUrl := Some url, prMergeStatus := pr_checking,
                 prMergeMessage := Some ''Pull request created. Checking merge status...''\<rparr>
         | None \<Rightarrow> st1)
      else if ph = ''FIX'' then
        (if str_includes (message entry) ''Skipped''
         then st\<lparr>phases := (phases st)(''FIX'' \<mapsto> skipped)\<rparr>
         else updatePhaseStatus st ph)
      else if ph = ''PLAN'' \<and> str_includes (message entry) ''Skipped'' then
        st\<lparr>phases := (phases st)(''PLAN'' \<mapsto> skipped)\<rparr>
      else if ph \<in> set PIPELINE_PHASES then
        (if completed_in_match (message entry) then markPhaseCompleted st ph
         else updatePhaseStatus st ph)
      else st)"

definition handleLogEntry_state :: "world \<Rightarrow> LogEntry \<Rightarrow> RunState \<Rightarrow> RunState" where
  "handleLogEntry_state w entry st = detect_phase entry (push_log entry (read_plan_text w entry st))"

section \<open>The run registry and what leaves the supervisor\<close>

datatype signal = SIGTERM | SIGKILL

text \<open>
  Messages to the renderer (\<open>sendToRenderer\<close>), signals, timers and calls that are started and
  not awaited, in the order they happen. \<open>process_kill\<close> with a negative number addresses
  the process group.
\<close>

datatype effect =
    RUN_STATUS string RunState
  | RUN_DONE string "string option" RunStatus "nat option"
  | RUN_LOG string LogEntry
  | RUN_PHASE string string "string \<rightharpoonup> PhaseStatus"
  | process_kill int signal
  | child_kill string signal
  | setTimeout_escalate string int
  | setInterval_poll string
  | clearInterval_poll string
  | showNotification string
  | call_maybeAutoMergeRun string
  | gh_pr_merge string

record ActiveRun =
  state :: RunState
  process :: bool
  logPoller :: bool
  logLineBuffer :: string

record registry =
  activeRuns :: "string \<rightharpoonup> ActiveRun"
  persistedRuns :: "string \<rightharpoonup> RunState"
  persistTimer :: bool
  effects :: "effect list"

definition emit :: "effect \<Rightarrow> registry \<Rightarrow> registry" where
  "emit e reg = reg\<lparr>effects := effects reg @ [e]\<rparr>"

definition schedulePersist :: "registry \<Rightarrow> registry" where
  "schedulePersist reg = (if persistTimer reg then reg else reg\<lparr>persistTimer := True\<rparr>)"

definition persistRunState :: "RunState \<Rightarrow> registry \<Rightarrow> registry" where
  "persistRunState st reg =
     schedulePersist (reg\<lparr>persistedRuns := (persistedRuns reg)(runId st \<mapsto> st)\<rparr>)"

definition getRunById :: "registry \<Rightarrow> string \<Rightarrow> RunState option" where
  "getRunById reg rid =
     (case activeRuns reg rid of
        Some a \<Rightarrow> Some (state a)
      | None \<Rightarrow> persistedRuns reg rid)"

text \<open>
  A run's state is one object, changed in place. \<open>setRun\<close> writes the changed object back
  where \<open>getRunById\<close> finds it.
\<close>

definition setRun :: "string \<Rightarrow> RunState \<Rightarrow> registry \<Rightarrow> registry" where
  "setRun rid st reg =
     (case activeRuns reg rid of
        Some a \<Rightarrow> reg\<lparr>activeRuns := (activeRuns reg)(rid \<mapsto> a\<lparr>state := st\<rparr>)\<rparr>
      | None \<Rightarrow>
          (case persistedRuns reg rid of
             Some p \<Rightarrow> reg\<lparr>persistedRuns := (persistedRuns reg)(rid \<mapsto> st)\<rparr>
           | None \<Rightarrow> reg))"

definition truthy :: "string option \<Rightarrow> bool" where
  "truthy v = (case v of None \<Rightarrow> False | Some s \<Rightarrow> s \<noteq> [])"

definition handleLogEntry ::
  "world \<Rightarrow> string \<Rightarrow> LogEntry \<Rightarrow> RunState \<times> registry \<Rightarrow> RunState \<times> registry" where
  "handleLogEntry w rid entry sr =
     (let st = handleLogEntry_state w entry (fst sr);
          reg1 = emit (RUN_LOG rid entry) (snd sr);
          reg2 = emit (RUN_PHASE rid (currentPhase st) (phases st)) reg1
      in (st, persistRunState st reg2))"

section \<open>Background runs: polling the log file and finalizing\<close>

definition finalizeBackgroundRun ::
  "world \<Rightarrow> string \<Rightarrow> RunState \<times> registry \<Rightarrow> RunState \<times> registry" where
  "finalizeBackgroundRun w rid sr =
     (let st = fst sr; reg = snd sr in
      if status st \<noteq> running then (st, reg)
      else
        (let st1 = st\<lparr>finishedAt := Some (now w)\<rparr>;
             st2 = (if inferCompletedFromLogs st1
                    then st1\<lparr>status := run_completed,
                             phases := retire_active (\<lambda>p. False) completed (phases st1)\<rparr>
                    else st1\<lparr>status := run_failed,
                             phases := retire_active (\<lambda>p. False) failed (phases st1)\<rparr>);
             reg1 = emit (RUN_STATUS rid st2) reg;
             reg2 = emit (RUN_DONE rid (prUrl st2) (status st2) (finishedAt st2)) reg1;
             reg3 = persistRunState st2 reg2
         in if status st2 = run_completed \<and> truthy (prUrl st2)
            then (st2, emit (call_maybeAutoMergeRun rid) reg3)
            else (st2, reg3)))"

definition stopPolling :: "string \<Rightarrow> registry \<Rightarrow> registry" where
  "stopPolling rid reg =
     (case activeRuns reg rid of
        None \<Rightarrow> reg
      | Some a \<Rightarrow>
          if \<not> logPoller a then reg
          else emit (clearInterval_poll rid)
                 (reg\<lparr>activeRuns := (activeRuns reg)(rid \<mapsto> a\<lparr>logPoller := False\<rparr>)\<rparr>))"

definition setBuffer :: "string \<Rightarrow> string \<Rightarrow> registry \<Rightarrow> registry" where
  "setBuffer rid buf reg =
     (case activeRuns reg rid of
        None \<Rightarrow> reg
      | Some a \<Rightarrow> reg\<lparr>activeRuns := (activeRuns reg)(rid \<mapsto> a\<lparr>logLineBuffer := buf\<rparr>)\<rparr>)"

text \<open>One line of a background run's log file, as the poller treats it.\<close>

definition poll_line :: "world \<Rightarrow> string \<Rightarrow> string \<Rightarrow> RunState \<times> registry \<Rightarrow> RunState \<times> registry" where
  "poll_line w rid line sr =
     (if js_trim line = [] then sr
      else (case parseLine w line of
              None \<Rightarrow> sr
            | Some entry \<Rightarrow>
                (let st = fst sr;
                     st1 = (if phase entry = ''INIT'' \<and> startsWith (message entry) ''Target branch:''
                            then st\<lparr>branchName :=
                                      js_trim (drop (length ''Target branch:'') (message entry))\<rparr>
                            else st)
                 in handleLogEntry w rid entry (st1, snd sr))))"

text \<open>
  The poller's tick. The file is read from the recorded offset; a partial last line is
  kept in the buffer. When the process is gone, the buffer is flushed, polling stops and
  the run is finalized. An exception while reading leaves everything for the next tick.
\<close>

definition poll_chunk ::
  "world \<Rightarrow> string \<Rightarrow> ActiveRun \<Rightarrow> string \<Rightarrow> RunState \<times> registry
     \<Rightarrow> string \<times> (RunState \<times> registry)" where
  "poll_chunk w rid current chunk sr =
     (if chunk = [] then (logLineBuffer current, sr)
      else
        (let lines = split_on nl (logLineBuffer current @ chunk);
             buf = last lines
         in (buf, foldl (\<lambda>s line. poll_line w rid line s)
                    (fst sr, setBuffer rid buf (snd sr)) (butlast lines))))"

definition poll_tail ::
  "world \<Rightarrow> string \<Rightarrow> string \<Rightarrow> RunState \<times> registry \<Rightarrow> RunState \<times> registry" where
  "poll_tail w rid buf sr =
     (if js_trim buf \<noteq> [] then
        (let sr' = (case parseLine w buf of
                      None \<Rightarrow> sr
                    | Some tailEntry \<Rightarrow> handleLogEntry w rid tailEntry sr)
         in (fst sr', setBuffer rid [] (snd sr')))
      else sr)"

definition poll :: "world \<Rightarrow> string \<Rightarrow> RunState \<times> registry \<Rightarrow> RunState \<times> registry" where
  "poll w rid sr =
     (let st = fst sr; reg = snd sr in
      case activeRuns reg rid of
        None \<Rightarrow> sr
      | Some current \<Rightarrow>
          if status st \<noteq> running then (st, stopPolling rid reg)
          else
            (case (case logFilePath st of
                     None \<Rightarrow> Some ([], logFileOffset st)
                   | Some path \<Rightarrow> readNewLogChunk w path (logFileOffset st)) of
               None \<Rightarrow> sr
             | Some (chunk, nextOffset) \<Rightarrow>
                 (let bs = poll_chunk w rid current chunk (st\<lparr>logFileOffset := nextOffset\<rparr>, reg);
                      sr1 = snd bs
                  in if \<not> isProcessAlive w (pid (fst sr1)) then
                       (let sr2 = poll_tail w rid (fst bs) sr1
                        in finalizeBackgroundRun w rid (fst sr2, stopPolling rid (snd sr2)))
                     else sr1)))"

definition startBackgroundLogPolling ::
  "world \<Rightarrow> string \<Rightarrow> RunState \<times> registry \<Rightarrow> RunState \<times> registry" where
  "startBackgroundLogPolling w rid sr =
     (case activeRuns (snd sr) rid of
        None \<Rightarrow> sr
      | Some a \<Rightarrow>
          if logPoller a \<or> \<not> truthy (logFilePath (fst sr)) then sr
          else
            (let reg1 = (snd sr)\<lparr>activeRuns := (activeRuns (snd sr))(rid \<mapsto> a\<lparr>logPoller := True\<rparr>)\<rparr>
             in poll w rid (fst sr, emit (setInterval_poll rid) reg1)))"

section \<open>The end of the child process (the \<open>close\<close> handler of startRun)\<close>

text \<open>
  \<open>code\<close> is the exit code, \<open>None\<close> when the child was ended by a signal. The rests of the
  two output buffers are flushed first.
\<close>

definition flush_buffer :: "world \<Rightarrow> string \<Rightarrow> string \<Rightarrow> RunState \<times> registry \<Rightarrow> RunState \<times> registry" where
  "flush_buffer w rid buf sr =
     (if js_trim buf \<noteq> [] then
        (case parseLine w buf of None \<Rightarrow> sr | Some entry \<Rightarrow> handleLogEntry w rid entry sr)
      else sr)"

definition announce_done :: "string \<Rightarrow> RunState \<Rightarrow> registry \<Rightarrow> registry" where
  "announce_done rid st reg =
     persistRunState st
       (emit (RUN_DONE rid (prUrl st) (status st) (finishedAt st)) (emit (RUN_STATUS rid st) reg))"

definition on_close ::
  "world \<Rightarrow> string \<Rightarrow> int option \<Rightarrow> string \<Rightarrow> string \<Rightarrow> RunState \<times> registry \<Rightarrow> RunState \<times> registry" where
  "on_close w rid code stdoutBuffer stderrBuffer sr =
     (let sr1 = flush_buffer w rid stderrBuffer (flush_buffer w rid stdoutBuffer sr);
          st = fst sr1; reg = snd sr1
      in if runMode st = background then
           (let sr2 = (if code = Some 0 \<and> status st = running \<and> \<not> truthy (logFilePath st) then
                         (let st' = st\<lparr>status := run_failed, finishedAt := Some (now w),
                                       prMergeStatus := (if truthy (prUrl st) then pr_checking else pr_none),
                                       prMergeMessage := Some ''Background run exited before streaming started.''\<rparr>
                          in (st', announce_done rid st' reg))
                       else sr1)
            in if code \<noteq> Some 0 \<and> status (fst sr2) = running then
                 (let st' = (fst sr2)\<lparr>status := run_failed, finishedAt := Some (now w)\<rparr>
                  in (st', announce_done rid st' (snd sr2)))
               else sr2)
         else
           (let st1 = st\<lparr>finishedAt := Some (now w)\<rparr>;
                sr3 = (if status st1 = stopped then (st1, reg)
                       else if code = Some 0 then
                         (st1\<lparr>status := run_completed,
                               phases := retire_active (\<lambda>p. False) completed (phases st1)\<rparr>,
                          emit (showNotification
                                  (if truthy (prUrl st1) then ''PR ready: '' @ the (prUrl st1)
                                   else ''Run completed successfully'')) reg)
                       else
                         (st1\<lparr>status := run_failed,
                               phases := retire_active (\<lambda>p. False) failed (phases st1)\<rparr>,
                          emit (showNotification ''Run failed'') reg));
                reg4 = announce_done rid (fst sr3) (snd sr3)
            in if status (fst sr3) = run_completed \<and> truthy (prUrl (fst sr3))
               then (fst sr3, emit (call_maybeAutoMergeRun rid) reg4)
               else (fst sr3, reg4)))"

section \<open>stopRun\<close>

text \<open>
  \<open>kill_throws\<close> says which signal deliveries raise an exception (for instance because the
  process is gone). The escalation to \<open>SIGKILL\<close> after three seconds is a timer; its body is
  \<open>escalate\<close>.
\<close>

definition kill_signals ::
  "(int \<Rightarrow> signal \<Rightarrow> bool) \<Rightarrow> string \<Rightarrow> bool \<Rightarrow> int option \<Rightarrow> registry \<Rightarrow> registry" where
  "kill_signals kill_throws rid has_process p reg =
     (let catch = (\<lambda>r. if has_process then emit (child_kill rid SIGKILL) r
                        else (case p of
                                None \<Rightarrow> r
                              | Some n \<Rightarrow> if n = 0 then r else emit (process_kill n SIGKILL) r))
      in case p of
           None \<Rightarrow> reg
         | Some n \<Rightarrow>
             if n = 0 then reg
             else
               (let r1 = emit (process_kill (- n) SIGTERM) reg in
                if kill_throws (- n) SIGTERM then catch r1
                else
                  (let r2 = emit (setTimeout_escalate rid n) r1 in
                   if has_process then emit (child_kill rid SIGTERM) r2
                   else
                     (let r3 = emit (process_kill n SIGTERM) r2
                      in if kill_throws n SIGTERM then catch r3 else r3))))"

definition stopRun ::
  "world \<Rightarrow> (int \<Rightarrow> signal \<Rightarrow> bool) \<Rightarrow> string \<Rightarrow> registry \<Rightarrow> bool \<times> registry" where
  "stopRun w kill_throws rid reg =
     (let run = activeRuns reg rid; persisted = persistedRuns reg rid in
      if run = None \<and> (persisted = None \<or> status (the persisted) \<noteq> running) then (False, reg)
      else
        (let targetState = (case run of Some a \<Rightarrow> state a | None \<Rightarrow> the persisted) in
         if status targetState \<noteq> running then (False, reg)
         else
           (let st = targetState\<lparr>status := stopped, finishedAt := Some (now w)\<rparr>;
                reg1 = announce_done rid st (setRun rid st reg);
                reg2 = stopPolling rid reg1
            in (True, kill_signals kill_throws rid
                        (case run of Some a \<Rightarrow> process a | None \<Rightarrow> False) (pid st) reg2))))"

definition escalate :: "(int \<Rightarrow> signal \<Rightarrow> bool) \<Rightarrow> string \<Rightarrow> int \<Rightarrow> registry \<Rightarrow> registry" where
  "escalate kill_throws rid n reg =
     (case getRunById reg rid of
        None \<Rightarrow> reg
      | Some st \<Rightarrow>
          if status st \<noteq> stopped then reg
          else
            (let r1 = emit (process_kill (- n) SIGKILL) reg
             in if kill_throws (- n) SIGKILL then emit (process_kill n SIGKILL) r1 else r1))"

definition getRunState :: "registry \<Rightarrow> string \<Rightarrow> RunState option" where
  "getRunState reg rid =
     (case activeRuns reg rid of
        Some a \<Rightarrow> Some (state a)
      | None \<Rightarrow> persistedRuns reg rid)"

section \<open>Loading the history at startup\<close>

text \<open>
  A stored run is what the history file holds for one run. Older files lack some fields;
  those that \<open>loadPersistedRuns\<close> fills in are optional here.
\<close>

record StoredRun =
  stored :: RunState
  stored_logs :: "LogEntry list option"
  stored_runMode :: "RunMode option"
  stored_logFileOffset :: "nat option"
  stored_autoMerge :: "bool option"
  stored_prMergeStatus :: "PrMergeStatus option"

definition backfill :: "StoredRun \<Rightarrow> RunState" where
  "backfill run =
     (stored run)\<lparr>
        logs := (case stored_logs run of Some l \<Rightarrow> l | None \<Rightarrow> []),
        runMode := (case stored_runMode run of Some m \<Rightarrow> m | None \<Rightarrow> foreground),
        logFileOffset := (case stored_logFileOffset run of Some n \<Rightarrow> n | None \<Rightarrow> 0),
        autoMerge := (case stored_autoMerge run of Some b \<Rightarrow> b | None \<Rightarrow> False),
        prMergeStatus := (case stored_prMergeStatus run of
                            Some s \<Rightarrow> s
                          | None \<Rightarrow> if truthy (prUrl (stored run)) then pr_checking else pr_none)\<rparr>"

definition restart_entry :: "world \<Rightarrow> LogEntry" where
  "restart_entry w =
     \<lparr>timestamp = nowText w, phase = ''INIT'',
      message = ''Run marked as stopped after app restart'',
      raw = ''[INIT] Run marked as stopped after app restart''\<rparr>"

text \<open>One run of the loop; the flag is \<open>didMigrateRunningStatus\<close>.\<close>

definition load_one :: "world \<Rightarrow> StoredRun \<Rightarrow> bool \<times> registry \<Rightarrow> bool \<times> registry" where
  "load_one w run br =
     (let loadedRun = backfill run; reg = snd br; rid = runId loadedRun in
      if status loadedRun = running then
        (if runMode loadedRun = background \<and> isProcessAlive w (pid loadedRun) then
           (let reg1 = reg\<lparr>activeRuns := (activeRuns reg)
                          (rid \<mapsto> \<lparr>state = loadedRun, process = False, logPoller = False,
                                   logLineBuffer = []\<rparr>)\<rparr>;
                sr = (if truthy (logFilePath loadedRun)
                      then startBackgroundLogPolling w rid (loadedRun, reg1)
                      else (loadedRun, reg1));
                reg2 = setRun rid (fst sr) (snd sr)
            in (fst br, reg2\<lparr>persistedRuns := (persistedRuns reg2)(rid \<mapsto> fst sr)\<rparr>))
         else
           (let st = loadedRun\<lparr>status := stopped,
                              finishedAt := (case finishedAt loadedRun of
                                               Some t \<Rightarrow> Some t | None \<Rightarrow> Some (now w)),
                              logs := logs loadedRun @ [restart_entry w]\<rparr>
            in (True, reg\<lparr>persistedRuns := (persistedRuns reg)(rid \<mapsto> st)\<rparr>)))
      else (fst br, reg\<lparr>persistedRuns := (persistedRuns reg)(rid \<mapsto> loadedRun)\<rparr>))"

definition loadPersistedRuns :: "world \<Rightarrow> StoredRun list option \<Rightarrow> registry \<Rightarrow> registry" where
  "loadPersistedRuns w history reg =
     (case history of
        None \<Rightarrow> reg
      | Some parsed \<Rightarrow>
          (let br = foldl (\<lambda>b run. load_one w run b) (False, reg) parsed
           in if fst br then schedulePersist (snd br) else snd br))"

section \<open>The pull-request lifecycle\<close>

text \<open>
  What \<open>gh pr view --json ...\<close> answers. \<open>view_number\<close> is \<open>None\<close> when the number is not
  finite. An answer of the hosting platform is a parameter of the functions below: \<open>Inl\<close>
  with the message when the command (or the parsing of its output) fails.
\<close>

record GhPrView =
  view_url :: string
  view_title :: string
  view_number :: "int option"
  view_state :: string
  view_mergeable :: string
  view_headRefName :: string
  view_baseRefName :: string

record RunPrActionResult =
  ok :: bool
  error :: "string option"

definition or_else :: "string \<Rightarrow> string option \<Rightarrow> string option" where
  "or_else s d = (if s \<noteq> [] then Some s else d)"

definition applyPrView :: "RunState \<Rightarrow> GhPrView \<Rightarrow> RunState" where
  "applyPrView st v =
     (let mergeStatus =
            (if view_state v = ''MERGED'' then pr_merged
             else if view_mergeable v = ''CONFLICTING'' then pr_conflict
             else if view_mergeable v = ''MERGEABLE'' then pr_ready
             else pr_checking);
          mergeMessage =
            (if view_state v = ''MERGED'' then ''Pull request has been merged.''
             else if view_mergeable v = ''CONFLICTING'' then ''Pull request has merge conflicts.''
             else if view_mergeable v = ''MERGEABLE'' then ''Pull request is mergeable.''
             else ''Mergeability is still being calculated by GitHub.'')
      in st\<lparr>prUrl := or_else (view_url v) (prUrl st),
            prTitle := or_else (view_title v) (prTitle st),
            prNumber := (case view_number v of Some n \<Rightarrow> Some n | None \<Rightarrow> prNumber st),
            prHeadRef := or_else (view_headRefName v) (prHeadRef st),
            prBaseRef := or_else (view_baseRefName v) (prBaseRef st),
            prMergeStatus := mergeStatus,
            prMergeMessage := Some mergeMessage\<rparr>)"

text \<open>Change the run registered under \<open>rid\<close> in place, tell the renderer and persist.\<close>

definition update_and_announce :: "string \<Rightarrow> RunState \<Rightarrow> registry \<Rightarrow> registry" where
  "update_and_announce rid st reg = persistRunState st (emit (RUN_STATUS rid st) (setRun rid st reg))"

definition refreshRunPrStatus ::
  "string + GhPrView \<Rightarrow> string \<Rightarrow> registry \<Rightarrow> RunPrActionResult \<times> registry" where
  "refreshRunPrStatus answer rid reg =
     (case getRunById reg rid of
        None \<Rightarrow> (\<lparr>ok = False, error = Some ''Run not found.''\<rparr>, reg)
      | Some st \<Rightarrow>
          if \<not> truthy (prUrl st) then
            (\<lparr>ok = False, error = Some ''No pull request exists for this run yet.''\<rparr>, reg)
          else
            (let st1 = st\<lparr>prMergeStatus := pr_checking,
                          prMergeMessage := Some ''Checking pull request status...''\<rparr>;
                 reg1 = update_and_announce rid st1 reg
             in case answer of
                  Inr v \<Rightarrow>
                    (\<lparr>ok = True, error = None\<rparr>, update_and_announce rid (applyPrView st1 v) reg1)
                | Inl msg \<Rightarrow>
                    (\<lparr>ok = False, error = Some msg\<rparr>,
                     update_and_announce rid
                       (st1\<lparr>prMergeStatus := pr_failed,
                            prMergeMessage := Some (''Failed to refresh PR status: '' @ msg)\<rparr>) reg1)))"

text \<open>
  \<open>executeMerge\<close>: \<open>merge_answer\<close> is \<open>None\<close> when \<open>gh pr merge\<close> succeeds and the message of the
  failure otherwise; \<open>view_answer\<close> is what the following refresh gets.
\<close>

definition executeMerge ::
  "string option \<Rightarrow> string + GhPrView \<Rightarrow> string \<Rightarrow> registry \<Rightarrow> RunPrActionResult \<times> registry" where
  "executeMerge merge_answer view_answer rid reg =
     (case getRunById reg rid of
        None \<Rightarrow> (\<lparr>ok = False, error = Some ''Run not found.''\<rparr>, reg)
      | Some st \<Rightarrow>
          if \<not> truthy (prUrl st) then
            (\<lparr>ok = False, error = Some ''No pull request exists for this run yet.''\<rparr>, reg)
          else
            (let st1 = st\<lparr>prMergeStatus := pr_auto_merging,
                          prMergeMessage := Some ''Submitting merge request...''\<rparr>;
                 reg1 = emit (gh_pr_merge (the (prUrl st))) (update_and_announce rid st1 reg)
             in case merge_answer of
                  Some msg \<Rightarrow>
                    (\<lparr>ok = False, error = Some msg\<rparr>,
                     update_and_announce rid
                       (st1\<lparr>prMergeStatus := pr_failed,
                            prMergeMessage := Some (''Failed to merge PR: '' @ msg)\<rparr>) reg1)
                | None \<Rightarrow>
                    (let rr = refreshRunPrStatus view_answer rid reg1;
                         st2 = (case getRunById (snd rr) rid of Some s \<Rightarrow> s | None \<Rightarrow> st1);
                         waiting = st2\<lparr>prMergeStatus := pr_auto_merging,
                                       prMergeMessage :=
                                         Some ''Auto-merge enabled. Waiting for checks and merge.''\<rparr>
                     in if \<not> ok (fst rr) then
                          (\<lparr>ok = True, error = None\<rparr>, update_and_announce rid waiting (snd rr))
                        else if prMergeStatus st2 \<noteq> pr_merged then
                          (\<lparr>ok = True, error = None\<rparr>, update_and_announce rid waiting (snd rr))
                        else (\<lparr>ok = True, error = None\<rparr>, snd rr))))"

definition mergeRunPr ::
  "string + GhPrView \<Rightarrow> string option \<Rightarrow> string + GhPrView \<Rightarrow> string \<Rightarrow> registry
     \<Rightarrow> RunPrActionResult \<times> registry" where
  "mergeRunPr view1 merge_answer view2 rid reg =
     (case getRunById reg rid of
        None \<Rightarrow> (\<lparr>ok = False, error = Some ''Run not found.''\<rparr>, reg)
      | Some st \<Rightarrow>
          if \<not> truthy (prUrl st) then
            (\<lparr>ok = False, error = Some ''No pull request exists for this run yet.''\<rparr>, reg)
          else
            (let rr = refreshRunPrStatus view1 rid reg in
             case getRunById (snd rr) rid of
               None \<Rightarrow> (\<lparr>ok = False, error = Some ''Run not found.''\<rparr>, snd rr)
             | Some st1 \<Rightarrow>
                 if prMergeStatus st1 = pr_conflict then
                   (\<lparr>ok = False,
                     error = Some ''Pull request has merge conflicts. Use Resolve & Merge.''\<rparr>, snd rr)
                 else executeMerge merge_answer view2 rid (snd rr)))"

text \<open>
  \<open>maybeAutoMergeRun(runId, state)\<close>, called with the state object registered under
  \<open>runId\<close>. The answers of the platform are consumed in order: the refresh, the merge, the
  refresh after the merge.
\<close>

definition maybeAutoMergeRun ::
  "string + GhPrView \<Rightarrow> string option \<Rightarrow> string + GhPrView \<Rightarrow> string \<Rightarrow> registry \<Rightarrow> registry" where
  "maybeAutoMergeRun view1 merge_answer view2 rid reg =
     (case getRunById reg rid of
        None \<Rightarrow> reg
      | Some st \<Rightarrow>
          if \<not> autoMerge st \<or> \<not> truthy (prUrl st) \<or> status st \<noteq> run_completed then reg
          else
            (let rr = refreshRunPrStatus view1 rid reg in
             case getRunById (snd rr) rid of
               None \<Rightarrow> snd rr
             | Some st1 \<Rightarrow>
                 if \<not> ok (fst rr) \<and> prMergeStatus st1 = pr_failed then snd rr
                 else if prMergeStatus st1 = pr_conflict then
                   update_and_announce rid
                     (st1\<lparr>prMergeMessage :=
                            Some ''Auto-merge skipped because this PR has merge conflicts. Use Resolve & Merge.''\<rparr>)
                     (snd rr)
                 else if prMergeStatus st1 = pr_ready \<or> prMergeStatus st1 = pr_checking then
                   snd (executeMerge merge_answer view2 rid (snd rr))
                 else snd rr))"

section \<open>The invariant of the phase map\<close>

definition phases_total :: "(string \<rightharpoonup> PhaseStatus) \<Rightarrow> bool" where
  "phases_total ph = list_all (\<lambda>p. ph p \<noteq> None) PIPELINE_PHASES"

definition one_active :: "(string \<rightharpoonup> PhaseStatus) \<Rightarrow> bool" where
  "one_active ph = (length (filter (\<lambda>p. ph p = Some active) PIPELINE_PHASES) \<le> 1)"

definition phase_inv :: "(string \<rightharpoonup> PhaseStatus) \<Rightarrow> bool" where
  "phase_inv ph = (phases_total ph \<and> one_active ph)"

text \<open>
  The steps that change the phase map of a run: the three log-parsing functions and the
  two finalizations (of a background run by the poller, of a child process at its end).
\<close>

datatype run_step =
    Step_handleLogEntry LogEntry
  | Step_updatePhaseStatus string
  | Step_markPhaseCompleted string
  | Step_finalizeBackgroundRun
  | Step_close "int option" string string

fun apply_step :: "world \<Rightarrow> string \<Rightarrow> registry \<Rightarrow> run_step \<Rightarrow> RunState \<Rightarrow> RunState" where
  "apply_step w rid reg (Step_handleLogEntry entry) st = fst (handleLogEntry w rid entry (st, reg))"
| "apply_step w rid reg (Step_updatePhaseStatus ph) st = updatePhaseStatus st ph"
| "apply_step w rid reg (Step_markPhaseCompleted ph) st = markPhaseCompleted st ph"
| "apply_step w rid reg Step_finalizeBackgroundRun st = fst (finalizeBackgroundRun w rid (st, reg))"
| "apply_step w rid reg (Step_close code out err) st = fst (on_close w rid code out err (st, reg))"

text \<open>
  A change of the phase map from \<open>ph\<close> to \<open>ph'\<close> is admissible when it keeps the invariant and
  leaves every skipped phase skipped.
\<close>

definition phases_step :: "(string \<rightharpoonup> PhaseStatus) \<Rightarrow> (string \<rightharpoonup> PhaseStatus) \<Rightarrow> bool" where
  "phases_step ph ph' =
     ((phase_inv ph \<longrightarrow> phase_inv ph') \<and> (\<forall>q. ph q = Some skipped \<longrightarrow> ph' q = Some skipped))"

section \<open>Concrete runs\<close>

text \<open>
  The state \<open>startRun\<close> creates, for a run identifier, the options and the process id of
  the child.
\<close>

definition startRun_state :: "string \<Rightarrow> bool \<Rightarrow> bool \<Rightarrow> bool \<Rightarrow> bool \<Rightarrow> int option \<Rightarrow> RunState" where
  "startRun_state rid skipPlan skipPr bg auto childPid =
     \<lparr>runId = rid, branchName = [], status = running, currentPhase = ''INIT'',
      phases = createInitialPhases skipPlan skipPr, logs = [],
      prUrl = None, prTitle = None, prNumber = None, prHeadRef = None, prBaseRef = None,
      prMergeStatus = pr_none, prMergeMessage = None, finishedAt = None, pid = childPid,
      planText = None, runMode = (if bg then background else foreground),
      logFilePath = None, logFileOffset = 0, autoMerge = auto\<rparr>"

definition empty_registry :: registry where
  "empty_registry = \<lparr>activeRuns = Map.empty, persistedRuns = Map.empty, persistTimer = False, effects = []\<rparr>"

definition register :: "RunState \<Rightarrow> registry \<Rightarrow> registry" where
  "register st reg =
     persistRunState st
       (reg\<lparr>activeRuns := (activeRuns reg)
               (runId st \<mapsto> \<lparr>state = st, process = True, logPoller = False, logLineBuffer = []\<rparr>)\<rparr>)"

text \<open>
  A world in which no process answers signal 0 and the log file of the run holds one line,
  the driver's final one.
\<close>

definition dead_world :: world where
  "dead_world =
     \<lparr>ansiToText = (\<lambda>s. s), now = 5000, nowText = ''2024-01-01 12:00:05'',
      planFile = (\<lambda>p. None),
      readNewLogChunk = (\<lambda>p off. if off = 0 then Some (''[12:00:00] [DONE] Total duration: 42s'' @ [nl], 39)
                                   else Some ([], 39)),
      kill0 = (\<lambda>p. False)\<rparr>"

definition bg_run :: RunState where
  "bg_run = (startRun_state ''run-1'' False False True False (Some 4242))
              \<lparr>logFilePath := Some ''/w/opencode-loop.log''\<rparr>"

text \<open>A run that has ended as completed.\<close>

definition finished_run :: RunState where
  "finished_run = (startRun_state ''run-1'' False False False False (Some 4242))
                     \<lparr>status := run_completed, finishedAt := Some 4000\<rparr>"

section \<open>Observing what a call did\<close>

definition new_effects :: "registry \<Rightarrow> registry \<Rightarrow> effect list" where
  "new_effects reg reg' = drop (length (effects reg)) (effects reg')"

definition is_merge_request :: "effect \<Rightarrow> bool" where
  "is_merge_request e = (case e of gh_pr_merge u \<Rightarrow> True | _ \<Rightarrow> False)"

definition merge_requested :: "registry \<Rightarrow> registry \<Rightarrow> bool" where
  "merge_requested reg reg' = list_ex is_merge_request (new_effects reg reg')"

definition merge_status :: "registry \<Rightarrow> string \<Rightarrow> PrMergeStatus option" where
  "merge_status reg rid = map_option prMergeStatus (getRunById reg rid)"

definition merge_message :: "registry \<Rightarrow> string \<Rightarrow> string option" where
  "merge_message reg rid = (case getRunById reg rid of Some st \<Rightarrow> prMergeMessage st | None \<Rightarrow> None)"

text \<open>A completed run with a pull request for which auto-merge was requested.\<close>

definition pr_run :: RunState where
  "pr_run = (startRun_state ''run-1'' False False False True (Some 4242))
               \<lparr>status := run_completed, finishedAt := Some 4000,
                prUrl := Some ''https://github.com/o/r/pull/7'', prMergeStatus := pr_checking\<rparr>"

definition mergeable_view :: GhPrView where
  "mergeable_view =
     \<lparr>view_url = ''https://github.com/o/r/pull/7'', view_title = ''feat: add login'',
      view_number = Some 7, view_state = ''OPEN'', view_mergeable = ''MERGEABLE'',
      view_headRefName = ''opencode/fix-login-bug'', view_baseRefName = ''main''\<rparr>"

text \<open>The state of a run after \<open>refreshRunPrStatus\<close> got the answer \<open>answer\<close>.\<close>

definition refreshed :: "string + GhPrView \<Rightarrow> RunState \<Rightarrow> RunState" where
  "refreshed answer st =
     (let st1 = st\<lparr>prMergeStatus := pr_checking,
                   prMergeMessage := Some ''Checking pull request status...''\<rparr>
      in case answer of
           Inr v \<Rightarrow> applyPrView st1 v
         | Inl msg \<Rightarrow> st1\<lparr>prMergeStatus := pr_failed,
                            prMergeMessage := Some (''Failed to refresh PR status: '' @ msg)\<rparr>)"


section \<open>Observing the registry after startup\<close>

definition adopted :: "registry \<Rightarrow> string \<Rightarrow> bool" where
  "adopted reg rid = (case activeRuns reg rid of Some a \<Rightarrow> True | None \<Rightarrow> False)"

definition tailing :: "registry \<Rightarrow> string \<Rightarrow> bool" where
  "tailing reg rid = (case activeRuns reg rid of Some a \<Rightarrow> logPoller a | None \<Rightarrow> False)"

text \<open>A history entry that holds every field of a run.\<close>

definition stored_of :: "RunState \<Rightarrow> StoredRun" where
  "stored_of st =
     \<lparr>stored = st, stored_logs = Some (logs st), stored_runMode = Some (runMode st),
      stored_logFileOffset = Some (logFileOffset st), stored_autoMerge = Some (autoMerge st),
      stored_prMergeStatus = Some (prMergeStatus st)\<rparr>"

text \<open>A world in which every process answers signal 0 and log files have nothing new.\<close>

definition alive_world :: world where
  "alive_world =
     \<lparr>ansiToText = (\<lambda>s. s), now = 5000, nowText = ''2024-01-01 12:00:05'',
      planFile = (\<lambda>p. None),
      readNewLogChunk = (\<lambda>p off. Some ([], off)),
      kill0 = (\<lambda>p. True)\<rparr>"

text \<open>
  A background run as \<open>startRun\<close> persists it before the driver has announced its log file.
\<close>

definition bg_run_unannounced :: RunState where
  "bg_run_unannounced = startRun_state ''run-1'' False False True False (Some 4242)"

text \<open>The registry entries under one identifier are the same in two registries.\<close>

definition keeps :: "string \<Rightarrow> registry \<Rightarrow> registry \<Rightarrow> bool" where
  "keeps rid reg reg' =
     (activeRuns reg' rid = activeRuns reg rid \<and> persistedRuns reg' rid = persistedRuns reg rid)"


section \<open>What one tick of the poller reads\<close>

text \<open>
  The log entries of a tick that finds the process gone: those of the complete lines of
  the buffer followed by the new text, then that of the rest, which is flushed. Blank lines
  give no entry.
\<close>

definition parsed_lines :: "world \<Rightarrow> string list \<Rightarrow> LogEntry list" where
  "parsed_lines w ls =
     List.map_filter (\<lambda>line. if js_trim line = [] then None else parseLine w line) ls"

definition tick_entries :: "world \<Rightarrow> string \<Rightarrow> string \<Rightarrow> LogEntry list" where
  "tick_entries w buffer chunk =
     (if chunk = [] then parsed_lines w [buffer]
      else parsed_lines w (split_on nl (buffer @ chunk)))"

text \<open>The retained log: at most the last \<open>MAX_LOGS_PER_RUN\<close> entries once one was added.\<close>

definition keep_last :: "nat \<Rightarrow> 'a list \<Rightarrow> 'a list" where
  "keep_last n xs = drop (length xs - n) xs"

definition retained :: "LogEntry list \<Rightarrow> LogEntry list \<Rightarrow> LogEntry list" where
  "retained old new = (if new = [] then old else keep_last MAX_LOGS_PER_RUN (old @ new))"

text \<open>The terminating line of the driver: a DONE entry whose message contains "Total duration:".\<close>

definition done_with_duration :: "LogEntry \<Rightarrow> bool" where
  "done_with_duration e =
     (toUpperCase (phase e) = ''DONE'' \<and> (\<exists>a b. message e = a @ ''Total duration:'' @ b))"

section \<open>Text filters of the driver\<close>

definition ESC :: char where
  "ESC = CHR 0x1B"

text \<open>\<open>strip_ansi\<close>: \<open>sed 's/\x1b\[[0-9;]*m//g'\<close>, on one line.\<close>

definition sgr_params :: "string \<Rightarrow> string" where
  "sgr_params s = dropWhile (\<lambda>d. is_digit d \<or> d = CHR '';'') s"

function strip_ansi_line :: "string \<Rightarrow> string" where
  "strip_ansi_line [] = []"
| "strip_ansi_line (c # cs) =
     (if c = ESC \<and> startsWith cs ''['' \<and> startsWith (sgr_params (drop 1 cs)) ''m''
      then strip_ansi_line (drop 1 (sgr_params (drop 1 cs)))
      else c # strip_ansi_line cs)"
  by pat_completeness auto
termination
proof (relation "measure length")
  show "wf (measure length)" by simp
next
  fix c :: char and cs :: string
  have "length (dropWhile (\<lambda>d. is_digit d \<or> d = CHR '';'') (drop 1 cs)) \<le> length (drop 1 cs)"
    by (rule length_dropWhile_le)
  then show "(drop 1 (sgr_params (drop 1 cs)), c # cs) \<in> measure length"
    by (simp add: sgr_params_def)
next
  fix c :: char and cs :: string
  show "(cs, c # cs) \<in> measure length" by simp
qed

text \<open>\<open>trim\<close>: \<open>sed 's/^[[:space:]]*//' | sed 's/[[:space:]]*$//'\<close>, on one line.\<close>

definition trim_line :: "string \<Rightarrow> string" where
  "trim_line l = rev (dropWhile is_space (rev (dropWhile is_space l)))"

definition unlines :: "string list \<Rightarrow> string" where
  "unlines ls = concat (map (\<lambda>l. l @ [nl]) ls)"

text \<open>A command substitution \<open>$(...)\<close> drops the line feeds at the end of the output.\<close>

definition command_subst :: "string \<Rightarrow> string" where
  "command_subst s = rev (dropWhile (\<lambda>c. c = nl) (rev s))"

text \<open>
  \<open>cleanup_text_output\<close>: \<open>echo "$1" | strip_ansi | grep -v '^>' | sed '/^$/d' | trim\<close>, as its
  callers capture it. Empty lines are deleted before the lines are trimmed.
\<close>

definition cleanup_text_output :: "string \<Rightarrow> string" where
  "cleanup_text_output text =
     command_subst
       (unlines
          (map trim_line
             (filter (\<lambda>l. l \<noteq> [])
                (filter (\<lambda>l. \<not> startsWith l ''>'')
                   (map strip_ansi_line (lines_of text))))))"

text \<open>\<open>head -n 1\<close> of a captured text.\<close>

definition head_1 :: "string \<Rightarrow> string" where
  "head_1 s = takeWhile (\<lambda>c. c \<noteq> nl) s"

text \<open>\<open>echo "$review_clean" | grep -Eiq '^LGTM$'\<close>: some line is LGTM, in any case.\<close>

definition review_is_lgtm :: "string \<Rightarrow> bool" where
  "review_is_lgtm review_clean = list_ex (\<lambda>l. to_lower l = ''lgtm'') (lines_of review_clean)"

section \<open>Decimal numbers in messages\<close>

function show_nat :: "nat \<Rightarrow> string" where
  "show_nat n =
     (if n < 10 then [''0123456789'' ! n]
      else show_nat (n div 10) @ [''0123456789'' ! (n mod 10)])"
  by pat_completeness auto
termination
  by (relation "measure id") auto

section \<open>The driver's pipeline\<close>

text \<open>
  The external commands of \<open>run_pipeline\<close>. Those given to \<open>retry_with_backoff\<close> answer with
  the sequence of their runs (\<open>wrapped\<close>); of the others only success matters (\<open>plain\<close>).
\<close>

datatype command =
    git_clone | cd_target | git_checkout | post_clone string
  | opencode_plan | opencode_implement | opencode_review | opencode_fix
  | git_add | git_diff_staged | opencode_commit | git_commit
  | git_push | git_fetch | git_diff_pr | opencode_pr | gh_pr_create

text \<open>
  The environment of one run of the driver: the shell variables (\<open>var\<close>, by name), the delay
  array, the answers of the commands, for which outputs \<open>echo\<close> is killed while
  \<open>is_network_error\<close> classifies them, whether the output of \<open>opencode run\<close> is streamed, the
  text \<open>date\<close> prints, the seconds a phase took, and what the repository looks like where the
  script asks.
\<close>

record driver_env =
  var :: "string \<Rightarrow> string"
  RETRY_DELAYS :: "string list"
  POST_CLONE_COMMANDS :: "string list option"
  wrapped :: "command \<Rightarrow> nat \<Rightarrow> cmd_run"
  echo_killed :: "string \<Rightarrow> bool"
  LOG_OPENCODE_DETAIL :: bool
  plain :: "command \<Rightarrow> bool"
  date_text :: string
  seconds :: "string \<Rightarrow> nat"
  target_exists :: bool
  SKIP_PLAN :: bool
  plan_file_given :: bool
  porcelain :: string
  REPO :: string
  PUSH_TARGET :: string
  remote_visible :: "nat \<Rightarrow> bool"
  commits_ahead :: bool
  cost_lines :: "bool \<Rightarrow> string list"

text \<open>What a run leaves behind: the lines printed by \<open>log\<close> (step and message) and the commands run.\<close>

record ptrace =
  plog :: "(string \<times> string) list"
  invoked :: "command list"

datatype stop = Return1 | ShellExit

type_synonym 'a stage = "(stop \<times> ptrace) + 'a"

definition bind :: "'a stage \<Rightarrow> ('a \<Rightarrow> 'b stage) \<Rightarrow> 'b stage" where
  "bind r f = (case r of Inl e \<Rightarrow> Inl e | Inr a \<Rightarrow> f a)"

definition logp :: "string \<Rightarrow> string \<Rightarrow> ptrace \<Rightarrow> ptrace" where
  "logp step msg t = t\<lparr>plog := plog t @ [(step, msg)]\<rparr>"

definition ran :: "command \<Rightarrow> ptrace \<Rightarrow> ptrace" where
  "ran c t = t\<lparr>invoked := invoked t @ [c]\<rparr>"

definition completed_in :: "driver_env \<Rightarrow> string \<Rightarrow> string" where
  "completed_in env step = ''Completed in '' @ show_nat (seconds env step) @ ''s''"

text \<open>The commands that are \<open>opencode run ...\<close>; only their output is streamed.\<close>

definition opencode_run_command :: "command \<Rightarrow> bool" where
  "opencode_run_command c =
     (c = opencode_plan \<or> c = opencode_implement \<or> c = opencode_review \<or> c = opencode_fix \<or>
      c = opencode_commit \<or> c = opencode_pr)"

definition retry_call :: "driver_env \<Rightarrow> command \<Rightarrow> retry_outcome" where
  "retry_call env c =
     retry_with_backoff (echo_killed env) (LOG_OPENCODE_DETAIL env) (opencode_run_command c)
       (var env ''MAX_RETRIES'') (RETRY_DELAYS env) (wrapped env c)"

text \<open>
  \<open>x=$(retry_with_backoff ...)\<close> captures what the function prints: a RETRY line of \<open>log\<close> for
  every sleep, then the output of the successful run.
\<close>

definition retry_lines :: "driver_env \<Rightarrow> retry_outcome \<Rightarrow> string" where
  "retry_lines env r =
     concat (map (\<lambda>(i, d). ''['' @ date_text env @ ''] [RETRY] Network error detected. attempt=''
                              @ show_nat (Suc i) @ ''/'' @ var env ''MAX_RETRIES''
                              @ '', sleeping '' @ d @ ''s'' @ [nl])
                 (enumerate 0 (sleeps r)))"

definition captured :: "driver_env \<Rightarrow> retry_outcome \<Rightarrow> string" where
  "captured env r =
     command_subst (retry_lines env r @ (case echoed r of Some out \<Rightarrow> out @ [nl] | None \<Rightarrow> []))"

text \<open>
  \<open>x=$(retry_with_backoff cmd) || return 1\<close>, and \<open>retry_with_backoff cmd >/dev/null || return 1\<close>.
  An unbound variable inside the function ends the subshell of a command substitution, and
  the whole shell otherwise.
\<close>

definition capture_or_return :: "driver_env \<Rightarrow> command \<Rightarrow> ptrace \<Rightarrow> (string \<times> ptrace) stage" where
  "capture_or_return env c t =
     (let r = retry_call env c in
      if result r = Returned 0 then Inr (captured env r, ran c t) else Inl (Return1, ran c t))"

definition run_or_return :: "driver_env \<Rightarrow> command \<Rightarrow> ptrace \<Rightarrow> ptrace stage" where
  "run_or_return env c t =
     (case result (retry_call env c) of
        Returned n \<Rightarrow> if n = 0 then Inr (ran c t) else Inl (Return1, ran c t)
      | Aborted \<Rightarrow> Inl (ShellExit, ran c t))"

definition plain_or_return :: "driver_env \<Rightarrow> command \<Rightarrow> ptrace \<Rightarrow> ptrace stage" where
  "plain_or_return env c t = (if plain env c then Inr (ran c t) else Inl (Return1, ran c t))"

definition clone_and_prepare_repo :: "driver_env \<Rightarrow> ptrace \<Rightarrow> ptrace stage" where
  "clone_and_prepare_repo env t =
     (let t1 = (if target_exists env
                then logp ''CLONE'' (''Removing existing target directory: '' @ var env ''TARGET_DIR'') t
                else t);
          t2 = logp ''CLONE'' (''Cloning from '' @ var env ''clone_mode'' @ '' source ''
                                 @ var env ''clone_source'' @ '' (branch='' @ var env ''MAIN_BRANCH''
                                 @ '') to '' @ var env ''TARGET_DIR'') t1
      in bind (run_or_return env git_clone t2) (\<lambda>t3.
         bind (plain_or_return env cd_target t3) (\<lambda>t4.
         bind (plain_or_return env git_checkout t4) (\<lambda>t5.
         Inr (logp ''CLONE'' (''Checked out new branch: '' @ var env ''BRANCH_NAME'') t5)))))"

fun post_clone_loop :: "driver_env \<Rightarrow> string list \<Rightarrow> ptrace \<Rightarrow> ptrace stage" where
  "post_clone_loop env [] t = Inr t"
| "post_clone_loop env (cmd # cmds) t =
     (if cmd = [] then post_clone_loop env cmds t
      else bind (plain_or_return env (post_clone cmd)
                   (logp ''SETUP'' (''Running post-clone command: '' @ cmd) t))
             (post_clone_loop env cmds))"

definition run_post_clone_commands :: "driver_env \<Rightarrow> ptrace \<Rightarrow> ptrace stage" where
  "run_post_clone_commands env t =
     (case POST_CLONE_COMMANDS env of
        None \<Rightarrow> Inr (logp ''SETUP'' ''No post-clone commands configured'' t)
      | Some cmds \<Rightarrow>
          if cmds = [] then Inr (logp ''SETUP'' ''No post-clone commands configured'' t)
          else post_clone_loop env cmds t)"

definition plan_phase :: "driver_env \<Rightarrow> ptrace \<Rightarrow> ptrace stage" where
  "plan_phase env t =
     (if SKIP_PLAN env then
        (let t1 = logp ''PLAN'' ''Skipped (user-provided plan)'' t in
         if var env ''PLAN_TEXT'' \<noteq> [] \<or> (var env ''PLAN_FILE_PATH'' \<noteq> [] \<and> plan_file_given env)
         then Inr (logp ''PLAN'' (''Plan saved to '' @ var env ''plan_file'') t1)
         else Inl (Return1,
                   logp ''PLAN'' ''Error: --skip-plan requires --plan-file or OPENCODE_LOOP_PLAN_TEXT'' t1))
      else
        (let t1 = logp ''PLAN'' (''Starting planning phase with model '' @ var env ''MODEL_PLAN'') t in
         bind (capture_or_return env opencode_plan t1) (\<lambda>(plan_raw, t2).
           if cleanup_text_output plan_raw = []
           then Inl (Return1, logp ''PLAN'' ''Planning output was empty.'' t2)
           else Inr (logp ''PLAN'' (completed_in env ''PLAN'' @ ''. Plan saved to '' @ var env ''plan_file'') t2))))"

definition implement_phase :: "driver_env \<Rightarrow> ptrace \<Rightarrow> ptrace stage" where
  "implement_phase env t =
     bind (run_or_return env opencode_implement
             (logp ''IMPLEMENT'' (''Starting implementation phase with model '' @ var env ''MODEL_IMPLEMENT'') t))
       (\<lambda>t1. Inr (logp ''IMPLEMENT'' (completed_in env ''IMPLEMENT'') t1))"

text \<open>The review phase yields the cleaned review text.\<close>

definition review_phase :: "driver_env \<Rightarrow> ptrace \<Rightarrow> (string \<times> ptrace) stage" where
  "review_phase env t =
     bind (capture_or_return env opencode_review
             (logp ''REVIEW'' (''Starting review phase with model '' @ var env ''MODEL_REVIEW'') t))
       (\<lambda>(review_raw, t1).
          Inr (cleanup_text_output review_raw, logp ''REVIEW'' (completed_in env ''REVIEW'') t1))"

text \<open>The fix phase yields \<open>did_run_fix\<close>.\<close>

definition fix_phase :: "driver_env \<Rightarrow> string \<Rightarrow> ptrace \<Rightarrow> (bool \<times> ptrace) stage" where
  "fix_phase env review_clean t =
     (if \<not> review_is_lgtm review_clean then
        bind (run_or_return env opencode_fix
                (logp ''FIX'' (''Review found issues; running fix phase with model '' @ var env ''MODEL_FIX'') t))
          (\<lambda>t1. Inr (True, logp ''FIX'' (completed_in env ''FIX'') t1))
      else Inr (False, logp ''FIX'' ''Skipped fix phase because review response is LGTM'' t))"

definition commit_phase :: "driver_env \<Rightarrow> ptrace \<Rightarrow> ptrace stage" where
  "commit_phase env t =
     bind (plain_or_return env git_add (logp ''COMMIT'' ''Preparing commit'' t)) (\<lambda>t1.
       if porcelain env = [] then
         Inl (Return1, logp ''COMMIT'' ''No changes after implementation/review. Nothing to commit.'' t1)
       else
         bind (plain_or_return env git_diff_staged t1) (\<lambda>t2.
         bind (capture_or_return env opencode_commit t2) (\<lambda>(commit_raw, t3).
           (let m = head_1 (cleanup_text_output commit_raw);
                commit_msg = (if m = [] then ''chore: apply opencode loop changes'' else m)
            in plain_or_return env git_commit
                 (logp ''COMMIT'' (''Committing with message: '' @ commit_msg) t3)))))"

fun wait_for_remote_branch_from :: "driver_env \<Rightarrow> nat \<Rightarrow> nat \<Rightarrow> ptrace \<Rightarrow> bool \<times> ptrace" where
  "wait_for_remote_branch_from env 0 attempt t = (False, t)"
| "wait_for_remote_branch_from env (Suc n) attempt t =
     (if remote_visible env attempt then (True, t)
      else wait_for_remote_branch_from env n (Suc attempt)
             (if attempt < 6
              then logp ''PUSH'' (''Remote branch '' @ [CHR 0x27] @ var env ''BRANCH_NAME'' @ [CHR 0x27]
                                   @ '' not visible yet (attempt '' @ show_nat attempt
                                   @ ''/6); retrying in 2s'') t
              else t))"

definition wait_for_remote_branch :: "driver_env \<Rightarrow> ptrace \<Rightarrow> bool \<times> ptrace" where
  "wait_for_remote_branch env t = wait_for_remote_branch_from env 6 1 t"

definition push_phase :: "driver_env \<Rightarrow> ptrace \<Rightarrow> ptrace stage" where
  "push_phase env t =
     (let t1 = logp ''PUSH'' (''Pushing branch '' @ var env ''BRANCH_NAME'') t in
      if REPO env = [] then
        Inl (Return1, logp ''PUSH'' ''Error: Could not detect target GitHub repository for PR creation.'' t1)
      else
        bind (run_or_return env git_push
                (logp ''PUSH'' (''Using push target '' @ [CHR 0x27] @ PUSH_TARGET env @ [CHR 0x27]
                                  @ '' and PR repo '' @ [CHR 0x27] @ REPO env @ [CHR 0x27]) t1))
          (\<lambda>t2.
             bind (if PUSH_TARGET env = ''origin'' then
                     (let wt = wait_for_remote_branch env t2 in
                      if \<not> fst wt then
                        Inl (Return1,
                             logp ''PUSH'' (''Error: Branch '' @ [CHR 0x27] @ var env ''BRANCH_NAME''
                                             @ [CHR 0x27] @ '' was pushed but is not visible on origin.'')
                               (snd wt))
                      else run_or_return env git_fetch (snd wt))
                   else Inr t2)
               (\<lambda>t3.
                  if \<not> commits_ahead env then
                    Inl (Return1, logp ''PR'' (''Error: No commits ahead of '' @ var env ''base_ref''
                                                 @ '' on '' @ var env ''head_ref'' @ ''.'') t3)
                  else Inr t3)))"

definition pr_phase :: "driver_env \<Rightarrow> bool \<Rightarrow> ptrace \<Rightarrow> ptrace stage" where
  "pr_phase env did_run_fix t =
     bind (plain_or_return env git_diff_pr
             (logp ''PR'' (''Generating PR title and body with model '' @ var env ''MODEL_PR'') t)) (\<lambda>t1.
     bind (capture_or_return env opencode_pr t1) (\<lambda>(pr_raw, t2).
     bind (capture_or_return env gh_pr_create t2) (\<lambda>(created, t3).
       (let PR_URL = trim_line (last (lines_of created));
            t4 = logp ''PR'' (completed_in env ''PR'') t3;
            t5 = logp ''DONE'' (''PR created: '' @ PR_URL) t4;
            t6 = logp ''DONE'' (''Total duration: '' @ show_nat (seconds env ''TOTAL'') @ ''s'') t5;
            t7 = foldl (\<lambda>u m. logp ''COST'' m u) t6 (cost_lines env did_run_fix)
        in Inr (if PR_URL \<noteq> []
                then logp ''CLEANUP'' (''Removing local workspace: '' @ var env ''TARGET_DIR'') t7
                else t7)))))"

text \<open>The phases up to the review and the fix, then the commit and what follows it.\<close>

definition before_commit :: "driver_env \<Rightarrow> (bool \<times> ptrace) stage" where
  "before_commit env =
     bind (clone_and_prepare_repo env \<lparr>plog = [], invoked = []\<rparr>) (\<lambda>t1.
     bind (run_post_clone_commands env (logp ''CLONE'' (completed_in env ''CLONE'') t1)) (\<lambda>t2.
     bind (plan_phase env (logp ''SETUP'' (completed_in env ''SETUP'') t2)) (\<lambda>t3.
     bind (implement_phase env t3) (\<lambda>t4.
     bind (review_phase env t4) (\<lambda>(review_clean, t5).
     fix_phase env review_clean t5)))))"

definition run_pipeline :: "driver_env \<Rightarrow> ptrace stage" where
  "run_pipeline env =
     bind (before_commit env) (\<lambda>(did_run_fix, t).
     bind (commit_phase env t) (\<lambda>t1.
     bind (push_phase env t1) (\<lambda>t2.
     pr_phase env did_run_fix t2)))"

text \<open>
  The exit code of the script for a run that got as far as the pipeline: 0 when it
  succeeded, 1 when it returned 1, 127 when the shell ended on an unbound variable.
\<close>

definition exit_code :: "ptrace stage \<Rightarrow> int" where
  "exit_code r = (case r of Inr t \<Rightarrow> 0 | Inl (Return1, t) \<Rightarrow> 1 | Inl (ShellExit, t) \<Rightarrow> 127)"

definition trace_of :: "ptrace stage \<Rightarrow> ptrace" where
  "trace_of r = (case r of Inr t \<Rightarrow> t | Inl (s, t) \<Rightarrow> t)"

text \<open>A trace without a sign of the Push and PR phases: no such line, no such command.\<close>

definition pre_push :: "ptrace \<Rightarrow> bool" where
  "pre_push t =
     (list_all (\<lambda>(step, msg). step \<noteq> ''PUSH'' \<and> step \<noteq> ''PR'' \<and> step \<noteq> ''DONE'') (plog t) \<and>
      list_all (\<lambda>c. c \<noteq> git_push \<and> c \<noteq> git_fetch \<and> c \<noteq> git_diff_pr \<and> c \<noteq> opencode_pr
                    \<and> c \<noteq> gh_pr_create) (invoked t))"

definition stopped_pre_push :: "'a stage \<Rightarrow> ('a \<Rightarrow> ptrace) \<Rightarrow> bool" where
  "stopped_pre_push r tr = (case r of Inl (s, t) \<Rightarrow> pre_push t | Inr a \<Rightarrow> pre_push (tr a))"

section \<open>Concrete runs of the driver\<close>

text \<open>
  An environment in which every command succeeds at its first run. The review answers
  \<open>review\<close>; after staging, \<open>git status --porcelain\<close> prints \<open>status_lines\<close>.
\<close>

definition smooth_env :: "string \<Rightarrow> string \<Rightarrow> driver_env" where
  "smooth_env review status_lines =
     \<lparr>var = (\<lambda>name. case map_of
                [(''MAX_RETRIES'', ''3''), (''BRANCH_NAME'', ''opencode/fix-login-bug''),
                 (''MAIN_BRANCH'', ''main''), (''TARGET_DIR'', ''/w/opencode-fix-login-bug''),
                 (''clone_mode'', ''local''), (''clone_source'', ''/repo''),
                 (''plan_file'', ''/plans/plan-a1b2c3.md''), (''base_ref'', ''origin/main''),
                 (''head_ref'', ''origin/opencode/fix-login-bug'')] name of
              Some v \<Rightarrow> v | None \<Rightarrow> ''model''),
      RETRY_DELAYS = [''10'', ''30'', ''60''],
      POST_CLONE_COMMANDS = Some [''pnpm i''],
      wrapped = (\<lambda>c k. failing 0 (if c = opencode_review then review
                                   else if c = gh_pr_create then ''https://github.com/o/r/pull/7''
                                   else ''done'')),
      echo_killed = (\<lambda>output. False),
      LOG_OPENCODE_DETAIL = True,
      plain = (\<lambda>c. True),
      date_text = ''2024-01-01 12:00:00'',
      seconds = (\<lambda>step. 4),
      target_exists = False,
      SKIP_PLAN = False,
      plan_file_given = False,
      porcelain = status_lines,
      REPO = ''o/r'',
      PUSH_TARGET = ''origin'',
      remote_visible = (\<lambda>attempt. True),
      commits_ahead = True,
      cost_lines = (\<lambda>did_run_fix. [])\<rparr>"

definition review_with_lgtm_line :: string where
  "review_with_lgtm_line = ''LGTM'' @ [nl] @ ''src/login.ts:12 password compared with =='' "

section \<open>The end of a run, seen from the registry\<close>

text \<open>
  The \<open>close\<close> handler of startRun and the poller hold the state object that \<open>activeRuns\<close> has
  under the identifier of the run: startRun registers it before the child can end, and no
  entry of \<open>activeRuns\<close> is ever removed. What they change in the state is therefore what
  \<open>getRunById\<close> finds afterwards.
\<close>

definition child_closed ::
  "world \<Rightarrow> string \<Rightarrow> int option \<Rightarrow> string \<Rightarrow> string \<Rightarrow> registry \<Rightarrow> registry" where
  "child_closed w rid code stdoutBuffer stderrBuffer reg =
     (case activeRuns reg rid of
        None \<Rightarrow> reg
      | Some a \<Rightarrow>
          (let sr = on_close w rid code stdoutBuffer stderrBuffer (state a, reg)
           in setRun rid (fst sr) (snd sr)))"

definition poll_tick :: "world \<Rightarrow> string \<Rightarrow> registry \<Rightarrow> registry" where
  "poll_tick w rid reg =
     (case activeRuns reg rid of
        None \<Rightarrow> reg
      | Some a \<Rightarrow> (let sr = poll w rid (state a, reg) in setRun rid (fst sr) (snd sr)))"

text \<open>
  \<open>void maybeAutoMergeRun(runId, state)\<close> starts the call and does not wait for it: it runs
  on the registry that the handler leaves.
\<close>

definition auto_merge_started :: "string \<Rightarrow> registry \<Rightarrow> registry \<Rightarrow> bool" where
  "auto_merge_started rid reg reg' = (call_maybeAutoMergeRun rid \<in> set (new_effects reg reg'))"

definition then_auto_merge ::
  "string + GhPrView \<Rightarrow> string option \<Rightarrow> string + GhPrView \<Rightarrow> string \<Rightarrow> registry \<Rightarrow> registry
     \<Rightarrow> registry" where
  "then_auto_merge view1 merge_answer view2 rid reg reg' =
     (if auto_merge_started rid reg reg' then maybeAutoMergeRun view1 merge_answer view2 rid reg'
      else reg')"

text \<open>
  A foreground run with auto-merge requested whose driver has printed the URL of its pull
  request, and the same as a background run that tails its log file.
\<close>

definition open_pr_run :: RunState where
  "open_pr_run = (startRun_state ''run-1'' False False False True (Some 4242))
                    \<lparr>prUrl := Some ''https://github.com/o/r/pull/7''\<rparr>"

definition open_pr_bg_run :: RunState where
  "open_pr_bg_run = (startRun_state ''run-1'' False False True True (Some 4242))
                       \<lparr>prUrl := Some ''https://github.com/o/r/pull/7'',
                        logFilePath := Some ''/w/opencode-loop.log''\<rparr>"

text \<open>A pull request that the platform reports as conflicting.\<close>

definition conflicting_view :: GhPrView where
  "conflicting_view = mergeable_view\<lparr>view_mergeable := ''CONFLICTING''\<rparr>"

text \<open>
  \<open>reg'\<close> continues \<open>reg\<close> without a start of maybeAutoMergeRun for the run \<open>r\<close>.
\<close>

definition quiet_since :: "string \<Rightarrow> registry \<Rightarrow> registry \<Rightarrow> bool" where
  "quiet_since r reg reg' =
     (\<exists>es. effects reg' = effects reg @ es \<and> call_maybeAutoMergeRun r \<notin> set es)"

section \<open>The retry loop\<close>

lemma delay_for_delay_at:
  assumes "delays \<noteq> []" and "[] \<notin> set delays"
  shows "delay_for delays i = Some (delay_at delays i)"
proof -
  have "delays ! i \<noteq> []" if "i < length delays"
    using that assms(2) nth_mem by metis
  with assms show ?thesis
    by (simp add: delay_for_def delay_at_def)
qed

declare retry_loop.simps [simp del]

lemma seen_failing [simp]: "seen streaming (failing n text) = text"
  by (simp add: seen_def failing_def)

lemma exit_status_failing [simp]: "exit_status (failing n text) = n"
  by (simp add: failing_def)

lemma retry_ok_step:
  assumes a: "1 \<le> a"
    and f: "exit_status (cmd (a - 1)) \<noteq> 0" "is_network_error sigpipe (seen streaming (cmd (a - 1)))"
    and r: "retry_ok sigpipe streaming m delays cmd (a + 1) (slept @ [delay_at delays (a - 1)]) r"
  shows "retry_ok sigpipe streaming m delays cmd a slept r"
proof -
  from r have le: "a + 1 \<le> runs r" by (simp add: retry_ok_def)
  with a have "a - 1 < runs r - 1" by arith
  then have upt: "[a - 1 ..< runs r - 1] = (a - 1) # [a ..< runs r - 1]"
    using a by (simp add: upt_conv_Cons)
  have all: "exit_status (cmd k) \<noteq> 0 \<and> is_network_error sigpipe (seen streaming (cmd k))"
    if "a - 1 \<le> k" "k < runs r - 1" for k
  proof (cases "k = a - 1")
    case True with f show ?thesis by simp
  next
    case False
    with that have "a + 1 - 1 \<le> k" by arith
    with r that show ?thesis unfolding retry_ok_def by blast
  qed
  from r le upt all show ?thesis
    unfolding retry_ok_def by auto
qed

lemma retry_loop_spec:
  assumes m: "legal_number maxr = Some m" and d: "delays \<noteq> []" "[] \<notin> set delays"
  shows "1 \<le> a \<Longrightarrow> int a \<le> m \<Longrightarrow>
           retry_ok sigpipe (ld \<and> io) m delays cmd a slept
             (retry_loop sigpipe ld io maxr delays cmd a slept)"
  using m d
proof (induction sigpipe ld io maxr delays cmd a slept rule: retry_loop.induct)
  case (1 sigpipe ld io maxr delays cmd attempt slept)
  let ?r = "cmd (attempt - 1)"
  let ?out = "seen (ld \<and> io) ?r"
  have le: "attempt_le attempt maxr"
    using 1 by (simp add: attempt_le_def)
  have dl: "delay_for delays (attempt - 1) = Some (delay_at delays (attempt - 1))"
    using 1 by (simp add: delay_for_delay_at)
  show ?case
  proof (cases "exit_status ?r = 0 \<or> \<not> is_network_error sigpipe ?out \<or> attempt_ge attempt maxr")
    case True
    then have "runs (retry_loop sigpipe ld io maxr delays cmd attempt slept) = attempt
       \<and> sleeps (retry_loop sigpipe ld io maxr delays cmd attempt slept) = slept
       \<and> result (retry_loop sigpipe ld io maxr delays cmd attempt slept)
            = Returned (exit_status ?r)"
      using le by (subst (1 2 3) retry_loop.simps) (auto simp: Let_def)
    with True 1(2,3,4) show ?thesis
      by (auto simp: retry_ok_def attempt_ge_def)
  next
    case False
    then have rec: "retry_loop sigpipe ld io maxr delays cmd attempt slept =
        retry_loop sigpipe ld io maxr delays cmd (attempt + 1)
          (slept @ [delay_at delays (attempt - 1)])"
      using le dl by (subst retry_loop.simps) (auto simp: Let_def)
    from False 1(4) have lt: "int (attempt + 1) \<le> m"
      by (auto simp: attempt_ge_def)
    have "retry_ok sigpipe (ld \<and> io) m delays cmd (attempt + 1)
            (slept @ [delay_at delays (attempt - 1)])
            (retry_loop sigpipe ld io maxr delays cmd (attempt + 1)
               (slept @ [delay_at delays (attempt - 1)]))"
      using False le dl lt 1(4,5,6)
      by (intro "1.IH"[OF _ refl refl refl]) (auto simp: Let_def)
    then show ?thesis
      unfolding rec using retry_ok_step[of attempt cmd sigpipe "ld \<and> io" m delays slept] 1(2) False
      by auto
  qed
qed

text \<open>
  What holds of the loop for a readable bound \<open>m \<ge> 1\<close> and a delay list without empty
  entries, in terms of the text the loop classifies and of what \<open>is_network_error\<close> answers
  for it: the command runs at most \<open>m\<close> times; every run but the last failed and was
  classified as a network error; the sleep before retry \<open>i\<close> is entry \<open>i\<close> of the delay list,
  the last entry when the list is shorter.
\<close>

lemma retry_with_backoff_when_classified:
  assumes "legal_number maxr = Some m" and "1 \<le> m" and "delays \<noteq> []" and "[] \<notin> set delays"
  shows "retry_ok sigpipe (ld \<and> io) m delays cmd 1 [] (retry_with_backoff sigpipe ld io maxr delays cmd)"
  unfolding retry_with_backoff_def
  using assms by (intro retry_loop_spec) auto

lemma retry_with_backoff_exhausts:
  assumes "legal_number maxr = Some m" and "1 \<le> m" and "delays \<noteq> []" and "[] \<notin> set delays"
    and all: "\<forall>k. int k < m \<longrightarrow>
                exit_status (cmd k) \<noteq> 0 \<and> is_network_error sigpipe (seen (ld \<and> io) (cmd k))"
  shows "int (runs (retry_with_backoff sigpipe ld io maxr delays cmd)) = m"
proof (rule ccontr)
  let ?r = "retry_with_backoff sigpipe ld io maxr delays cmd"
  have ok: "retry_ok sigpipe (ld \<and> io) m delays cmd 1 [] ?r"
    using assms(1-4) by (rule retry_with_backoff_when_classified)
  assume "int (runs ?r) \<noteq> m"
  with ok have lt: "int (runs ?r) < m" and "1 \<le> runs ?r" by (auto simp: retry_ok_def)
  then have "int (runs ?r - 1) < m" by arith
  with all have "exit_status (cmd (runs ?r - 1)) \<noteq> 0 \<and>
      is_network_error sigpipe (seen (ld \<and> io) (cmd (runs ?r - 1)))"
    by blast
  with ok lt show False by (auto simp: retry_ok_def)
qed

lemma retry_with_backoff_first_failure:
  assumes "legal_number maxr = Some m" and "1 \<le> m"
    and "exit_status (cmd 0) \<noteq> 0"
    and "\<not> is_network_error sigpipe (seen (ld \<and> io) (cmd 0))"
  shows "retry_with_backoff sigpipe ld io maxr delays cmd =
           \<lparr>result = Returned (exit_status (cmd 0)), runs = 1, sleeps = [], echoed = None\<rparr>"
  unfolding retry_with_backoff_def
  using assms by (subst retry_loop.simps) (auto simp: attempt_le_def Let_def)

subsection \<open>What the pattern set accepts\<close>

lemma split_on_starts:
  "c \<notin> set w \<Longrightarrow> \<exists>b ls. split_on c (w @ post) = (w @ b) # ls"
proof (induction w)
  case Nil
  show ?case by (cases post) (auto split: list.splits)
next
  case (Cons x w)
  then obtain b ls where "split_on c (w @ post) = (w @ b) # ls" by auto
  with Cons.prems show ?case by auto
qed

lemma split_on_not_Nil: "split_on c s \<noteq> []"
  by (induction s) (auto split: list.splits)

lemma split_on_holds:
  "c \<notin> set w \<Longrightarrow> \<exists>l \<in> set (split_on c (pre @ w @ post)). \<exists>a b. l = a @ w @ b"
proof (induction pre)
  case Nil
  then obtain b ls where "split_on c (w @ post) = (w @ b) # ls"
    using split_on_starts by blast
  then show ?case by (auto intro: exI[of _ "[]"])
next
  case (Cons x pre)
  then obtain l a b where l: "l \<in> set (split_on c (pre @ w @ post))" "l = a @ w @ b"
    by blast
  show ?case
  proof (cases "x = c")
    case True
    with l show ?thesis by auto
  next
    case False
    obtain l0 ls where sp: "split_on c (pre @ w @ post) = l0 # ls"
      using split_on_not_Nil by (cases "split_on c (pre @ w @ post)") auto
    show ?thesis
    proof (cases "l = l0")
      case True
      with False sp l have "x # l0 \<in> set (split_on c ((x # pre) @ w @ post))"
        and "x # l0 = (x # a) @ w @ b" by auto
      then show ?thesis by blast
    next
      case False
      with \<open>x \<noteq> c\<close> sp l have "l \<in> set (split_on c ((x # pre) @ w @ post))" by auto
      with l(2) show ?thesis by blast
    qed
  qed
qed

lemma match_here_lit:
  "map lower_char w' = map lower_char w \<Longrightarrow> match_here (lit w) (w' @ rest)"
proof (induction w arbitrary: w')
  case Nil
  then show ?case by (simp add: lit_def)
next
  case (Cons c w)
  then obtain x u where "w' = x # u" by (cases w') auto
  with Cons show ?case by (auto simp: lit_def)
qed

lemma match_anywhere_here: "match_here p s \<Longrightarrow> match_anywhere p s"
  by (cases s) auto

lemma match_anywhere_append: "match_anywhere p s \<Longrightarrow> match_anywhere p (pre @ s)"
  by (induction pre) (auto simp: match_anywhere_here)

lemma grep_q_lit:
  assumes "lit w \<in> set pats" and "map lower_char w' = map lower_char w" and "nl \<notin> set w'"
  shows "grep_q pats (pre @ w' @ post)"
proof -
  obtain l a b where l: "l \<in> set (lines_of (pre @ w' @ post))" "l = a @ w' @ b"
    using split_on_holds[OF assms(3)] unfolding lines_of_def by blast
  have "match_anywhere (lit w) l"
    unfolding l(2) by (intro match_anywhere_append match_anywhere_here match_here_lit assms(2))
  with l(1) assms(1) show ?thesis
    unfolding grep_q_def list_ex_iff by blast
qed

lemma split_on_append_sep: "c \<notin> set w \<Longrightarrow> split_on c (w @ c # rest) = w # split_on c rest"
  by (induction w) auto

lemma short_reset_is_network_error: "is_network_error sigpipe ''read ECONNRESET''"
proof -
  have "grep_q network_patterns ''read ECONNRESET''" by code_simp
  moreover have "\<not> matches_before_last_line network_patterns ''read ECONNRESET''" by code_simp
  ultimately show ?thesis by (simp add: is_network_error_def)
qed

lemma legal_number_3: "legal_number ''3'' = Some 3"
  by code_simp

lemma legal_number_10: "legal_number ''10'' = Some 10"
  by code_simp

section \<open>Retry bound of load_config\<close>

text \<open>
  Claim C7. The claim asks that the retry bound is within 1..3 whatever its source. The
  configuration value is clamped, but a non-empty \<open>OPENCODE_LOOP_MAX_RETRIES\<close> is assigned
  after the clamping and is used as it is: with 2 configured and the override 10 the bound
  is 10, and a command that keeps failing on a network error runs ten times.
\<close>

theorem load_config_env_override_not_clamped:
  "load_config_max_retries (Some ''2'') (Some ''10'') = ''10'' \<and>
   runs (retry_with_backoff sigpipe log_detail is_opencode_run
           (load_config_max_retries (Some ''2'') (Some ''10''))
           [''10'', ''30'', ''60''] (\<lambda>k. failing 1 ''read ECONNRESET'')) = 10"
proof -
  have l: "load_config_max_retries (Some ''2'') (Some ''10'') = ''10''"
    by code_simp
  have "int (runs (retry_with_backoff sigpipe log_detail is_opencode_run ''10''
           [''10'', ''30'', ''60''] (\<lambda>k. failing 1 ''read ECONNRESET''))) = 10"
    by (rule retry_with_backoff_exhausts[OF legal_number_10])
       (simp_all add: short_reset_is_network_error)
  with l show ?thesis by simp
qed

section \<open>The retry policy and the classification of a failure\<close>

lemma reset_then_long_text_matches: "grep_q network_patterns reset_then_long_text"
  unfolding reset_then_long_text_def
  using grep_q_lit[where w = "''ECONNRESET''" and w' = "''ECONNRESET''" and pre = "''fatal: read ''"
      and post = "[nl] @ replicate 200000 (CHR ''x'')" and pats = network_patterns]
  by (simp add: network_patterns_def nl_def)

lemma reset_then_long_text_early: "matches_before_last_line network_patterns reset_then_long_text"
proof -
  have sp: "lines_of reset_then_long_text =
      ''fatal: read ECONNRESET'' # split_on nl (replicate 200000 (CHR ''x''))"
    unfolding reset_then_long_text_def lines_of_def
    using split_on_append_sep[of nl "''fatal: read ECONNRESET''" "replicate 200000 (CHR ''x'')"]
    by (simp add: nl_def)
  have l: "line_matches network_patterns ''fatal: read ECONNRESET''"
    by code_simp
  show ?thesis
    unfolding matches_before_last_line_def sp
    using l split_on_not_Nil[of nl "replicate 200000 (CHR ''x'')"] by simp
qed

lemma reset_then_long_text_not_classified:
  "\<not> is_network_error killed_beyond_pipe reset_then_long_text"
proof -
  have "killed_beyond_pipe reset_then_long_text"
    by (simp add: killed_beyond_pipe_def reset_then_long_text_def)
  with reset_then_long_text_early show ?thesis
    by (simp add: is_network_error_def)
qed

text \<open>
  Claim C2. The claim asks that a failure whose output matches the pattern set is retried.
  Two failures with a matching output are returned at once by the script, with no retry.
  The first prints "fatal: read ECONNRESET" and then a long text: \<open>grep -q\<close> leaves at the
  first line, \<open>echo\<close> is killed while writing the rest, and under \<open>pipefail\<close> the classification
  fails. The second is a streamed \<open>opencode run\<close> whose "ECONNRESET" on standard error is
  not in the stream file that is classified. The same first line alone, as the whole
  output, is retried up to the bound of three runs.
\<close>

theorem retry_with_backoff_misses_network_errors:
  "grep_q network_patterns reset_then_long_text \<and>
   retry_with_backoff killed_beyond_pipe False False ''3'' [''10'', ''30'', ''60'']
       (\<lambda>k. failing 128 reset_then_long_text)
     = \<lparr>result = Returned 128, runs = 1, sleeps = [], echoed = None\<rparr> \<and>
   grep_q network_patterns (combined reset_on_stderr) \<and>
   retry_with_backoff (\<lambda>output. False) True True ''3'' [''10'', ''30'', ''60'']
       (\<lambda>k. reset_on_stderr)
     = \<lparr>result = Returned 1, runs = 1, sleeps = [], echoed = None\<rparr> \<and>
   runs (retry_with_backoff killed_beyond_pipe False False ''3'' [''10'', ''30'', ''60'']
       (\<lambda>k. failing 128 ''fatal: read ECONNRESET'')) = 3"
proof -
  have a: "retry_with_backoff killed_beyond_pipe False False ''3'' [''10'', ''30'', ''60'']
       (\<lambda>k. failing 128 reset_then_long_text)
     = \<lparr>result = Returned 128, runs = 1, sleeps = [], echoed = None\<rparr>"
    using retry_with_backoff_first_failure[OF legal_number_3, of "\<lambda>k. failing 128 reset_then_long_text"
        killed_beyond_pipe False False "[''10'', ''30'', ''60'']"]
    by (simp add: reset_then_long_text_not_classified)
  have b: "grep_q network_patterns (combined reset_on_stderr)"
    by code_simp
  have "\<not> is_network_error (\<lambda>output. False) (seen (True \<and> True) reset_on_stderr)"
    by code_simp
  then have c: "retry_with_backoff (\<lambda>output. False) True True ''3'' [''10'', ''30'', ''60'']
       (\<lambda>k. reset_on_stderr)
     = \<lparr>result = Returned 1, runs = 1, sleeps = [], echoed = None\<rparr>"
    using retry_with_backoff_first_failure[OF legal_number_3, of "\<lambda>k. reset_on_stderr"
        "\<lambda>output. False" True True "[''10'', ''30'', ''60'']"]
    by (simp add: reset_on_stderr_def)
  have net: "is_network_error killed_beyond_pipe ''fatal: read ECONNRESET''"
    by code_simp
  have "int (runs (retry_with_backoff killed_beyond_pipe False False ''3'' [''10'', ''30'', ''60'']
       (\<lambda>k. failing 128 ''fatal: read ECONNRESET''))) = 3"
    by (rule retry_with_backoff_exhausts[OF legal_number_3]) (simp_all add: net)
  with reset_then_long_text_matches a b c show ?thesis by simp
qed

section \<open>The phase map\<close>

lemma retire_fold:
  "s \<noteq> active \<Longrightarrow>
   foldl (\<lambda>ph p. if ph p = Some active \<and> \<not> keep p then ph(p \<mapsto> s) else ph) ph0 ps =
   (\<lambda>q. if q \<in> set ps \<and> ph0 q = Some active \<and> \<not> keep q then Some s else ph0 q)"
proof (induction ps arbitrary: ph0)
  case Nil
  show ?case by simp
next
  case (Cons p ps)
  show ?case
    using Cons.prems by (auto simp add: Cons.IH[OF Cons.prems] fun_eq_iff)
qed

lemma retire_active_apply:
  "s \<noteq> active \<Longrightarrow>
   retire_active keep s ph q =
     (if q \<in> set PIPELINE_PHASES \<and> ph q = Some active \<and> \<not> keep q then Some s else ph q)"
  unfolding retire_active_def by (simp add: retire_fold)

lemma distinct_PIPELINE_PHASES: "distinct PIPELINE_PHASES"
  by (simp add: PIPELINE_PHASES_def)

lemma one_active_iff:
  "one_active ph \<longleftrightarrow>
     (\<forall>p \<in> set PIPELINE_PHASES. \<forall>q \<in> set PIPELINE_PHASES.
        ph p = Some active \<longrightarrow> ph q = Some active \<longrightarrow> p = q)"
proof -
  have gen: "distinct xs \<Longrightarrow>
      (length (filter P xs) \<le> 1) = (\<forall>p \<in> set xs. \<forall>q \<in> set xs. P p \<longrightarrow> P q \<longrightarrow> p = q)" for P and xs :: "string list"
  proof (induction xs)
    case Nil
    show ?case by simp
  next
    case (Cons x xs)
    show ?case
    proof (cases "P x")
      case True
      have "(length (filter P xs) = 0) = (\<forall>q\<in>set xs. \<not> P q)"
        by (simp add: filter_empty_conv)
      with True Cons show ?thesis by auto
    next
      case False
      with Cons show ?thesis by auto
    qed
  qed
  show ?thesis unfolding one_active_def
    by (rule gen[OF distinct_PIPELINE_PHASES])
qed

lemma phases_total_iff: "phases_total ph \<longleftrightarrow> (\<forall>p \<in> set PIPELINE_PHASES. ph p \<noteq> None)"
  by (simp add: phases_total_def list_all_iff)

lemma createInitialPhases_inv: "phase_inv (createInitialPhases skipPlan skipPr)"
  unfolding phase_inv_def phases_total_def one_active_def createInitialPhases_def PIPELINE_PHASES_def
  by simp

lemma phase_inv_iff:
  "phase_inv ph \<longleftrightarrow>
     (\<forall>p \<in> set PIPELINE_PHASES. ph p \<noteq> None) \<and>
     (\<forall>p \<in> set PIPELINE_PHASES. \<forall>q \<in> set PIPELINE_PHASES.
        ph p = Some active \<longrightarrow> ph q = Some active \<longrightarrow> p = q)"
  by (simp add: phase_inv_def phases_total_iff one_active_iff)

lemma phases_step_refl: "phases_step ph ph"
  by (simp add: phases_step_def)

lemma phases_step_trans: "phases_step a b \<Longrightarrow> phases_step b c \<Longrightarrow> phases_step a c"
  by (simp add: phases_step_def)

lemma phases_step_retire:
  "s \<noteq> active \<Longrightarrow> phases_step ph (retire_active keep s ph)"
  unfolding phases_step_def phase_inv_iff
  by (auto simp: retire_active_apply)

lemma phases_step_set:
  "s \<noteq> active \<Longrightarrow> ph p \<noteq> Some skipped \<or> s = skipped \<Longrightarrow> phases_step ph (ph(p \<mapsto> s))"
  unfolding phases_step_def phase_inv_iff
  by auto

lemma phases_step_updatePhaseStatus: "phases_step (phases st) (phases (updatePhaseStatus st p))"
  unfolding phases_step_def phase_inv_iff updatePhaseStatus_def Let_def
  by (auto simp: retire_active_apply)

lemma phases_step_markPhaseCompleted: "phases_step (phases st) (phases (markPhaseCompleted st p))"
  unfolding markPhaseCompleted_def Let_def
  by (auto simp: phases_step_refl intro!: phases_step_set)


lemma phases_read_plan_text [simp]: "phases (read_plan_text w entry st) = phases st"
  by (simp add: read_plan_text_def Let_def split: option.splits)

lemma phases_push_log [simp]: "phases (push_log entry st) = phases st"
  by (simp add: push_log_def Let_def)

lemma phases_step_detect_phase: "phases_step (phases st) (phases (detect_phase entry st))"
  unfolding detect_phase_def Let_def
  by (auto simp: phases_step_refl phases_step_updatePhaseStatus phases_step_markPhaseCompleted
           intro!: phases_step_set phases_step_retire split: option.splits)

lemma phases_step_handleLogEntry_state:
  "phases_step (phases st) (phases (handleLogEntry_state w entry st))"
  using phases_step_detect_phase[of "push_log entry (read_plan_text w entry st)" entry]
  by (simp add: handleLogEntry_state_def)

lemma fst_handleLogEntry [simp]:
  "fst (handleLogEntry w rid entry sr) = handleLogEntry_state w entry (fst sr)"
  by (simp add: handleLogEntry_def Let_def)

lemma phases_step_finalizeBackgroundRun:
  "phases_step (phases (fst sr)) (phases (fst (finalizeBackgroundRun w rid sr)))"
  unfolding finalizeBackgroundRun_def Let_def
  by (auto simp: phases_step_refl intro!: phases_step_retire)

lemma phases_step_flush_buffer:
  "phases_step (phases (fst sr)) (phases (fst (flush_buffer w rid buf sr)))"
  unfolding flush_buffer_def
  by (auto simp: phases_step_refl phases_step_handleLogEntry_state split: option.splits)

lemma phases_step_on_close_tail:
  "phases_step (phases (fst sr)) (phases (fst (on_close w rid code [] [] sr)))"
  unfolding on_close_def Let_def flush_buffer_def js_trim_def
  by (auto simp: phases_step_refl intro!: phases_step_retire)


lemma flush_buffer_Nil [simp]: "flush_buffer w rid [] sr = sr"
  by (simp add: flush_buffer_def js_trim_def)

lemma on_close_flush:
  "on_close w rid code out err sr =
     on_close w rid code [] [] (flush_buffer w rid err (flush_buffer w rid out sr))"
  by (simp add: on_close_def)

lemma phases_step_on_close:
  "phases_step (phases (fst sr)) (phases (fst (on_close w rid code out err sr)))"
proof -
  let ?a = "flush_buffer w rid out sr"
  let ?b = "flush_buffer w rid err ?a"
  have "phases_step (phases (fst sr)) (phases (fst ?a))"
    by (rule phases_step_flush_buffer)
  moreover have "phases_step (phases (fst ?a)) (phases (fst ?b))"
    by (rule phases_step_flush_buffer)
  moreover have "phases_step (phases (fst ?b)) (phases (fst (on_close w rid code [] [] ?b)))"
    by (rule phases_step_on_close_tail)
  ultimately show ?thesis
    unfolding on_close_flush[of w rid code out err sr]
    by (blast intro: phases_step_trans)
qed

lemma phases_step_apply_step: "phases_step (phases st) (phases (apply_step w rid reg s st))"
proof (cases s)
  case (Step_handleLogEntry entry)
  then show ?thesis by (simp add: phases_step_handleLogEntry_state)
next
  case (Step_updatePhaseStatus p)
  then show ?thesis by (simp add: phases_step_updatePhaseStatus)
next
  case (Step_markPhaseCompleted p)
  then show ?thesis by (simp add: phases_step_markPhaseCompleted)
next
  case Step_finalizeBackgroundRun
  then show ?thesis using phases_step_finalizeBackgroundRun[of "(st, reg)" w rid] by simp
next
  case (Step_close code out err)
  then show ?thesis using phases_step_on_close[of "(st, reg)" w rid code out err] by simp
qed

lemma phases_step_replay:
  "phases_step (phases st) (phases (foldl (\<lambda>s x. apply_step w rid reg x s) st steps))"
proof (induction steps arbitrary: st)
  case Nil
  show ?case by (simp add: phases_step_refl)
next
  case (Cons x steps)
  show ?case
    using phases_step_apply_step[of st w rid reg x] Cons.IH[of "apply_step w rid reg x st"]
    by (auto intro: phases_step_trans)
qed

text \<open>
  Claim C1. The initial phase map gives each of the nine phases a status and has no active
  phase. Every log-parsing step (handleLogEntry, updatePhaseStatus, markPhaseCompleted) and
  every finalization step (of a background run, of a child process at its end) keeps the
  map total on the nine phases with at most one of them active, and leaves a skipped phase
  skipped; so does every sequence of such steps replayed from the initial map.
\<close>

theorem phase_map_invariant:
  "phase_inv (createInitialPhases skipPlan skipPr) \<and>
   (phase_inv (phases st) \<longrightarrow> phase_inv (phases (apply_step w rid reg s st))) \<and>
   (phases st q = Some skipped \<longrightarrow> phases (apply_step w rid reg s st) q = Some skipped) \<and>
   (phases st = createInitialPhases skipPlan skipPr \<longrightarrow>
      phase_inv (phases (foldl (\<lambda>s x. apply_step w rid reg x s) st steps))) \<and>
   (phases st q = Some skipped \<longrightarrow>
      phases (foldl (\<lambda>s x. apply_step w rid reg x s) st steps) q = Some skipped)"
  using phases_step_apply_step[of st w rid reg s] phases_step_replay[of st w rid reg steps]
    createInitialPhases_inv[of skipPlan skipPr]
  unfolding phases_step_def by auto

theorem phase_map_invariant_witness:
  "phases (startRun_state ''run-1'' True False False False None) = createInitialPhases True False \<and>
   phases (startRun_state ''run-1'' True False False False None) ''PLAN'' = Some skipped \<and>
   phase_inv (phases (startRun_state ''run-1'' True False False False None)) \<and>
   phase_inv (phases (apply_step dead_world ''run-1'' empty_registry
      (Step_handleLogEntry \<lparr>timestamp = ''12:00:00'', phase = ''PLAN'',
         message = ''Starting planning phase'', raw = []\<rparr>)
      (startRun_state ''run-1'' True False False False None))) \<and>
   phases (apply_step dead_world ''run-1'' empty_registry
      (Step_handleLogEntry \<lparr>timestamp = ''12:00:00'', phase = ''PLAN'',
         message = ''Starting planning phase'', raw = []\<rparr>)
      (startRun_state ''run-1'' True False False False None)) ''PLAN'' = Some skipped"
proof -
  let ?st = "startRun_state ''run-1'' True False False False None"
  have h1: "phases ?st = createInitialPhases True False"
    by (simp add: startRun_state_def)
  have h2: "phases ?st ''PLAN'' = Some skipped"
    by code_simp
  from phase_map_invariant[of True False ?st dead_world "''run-1''" empty_registry
      "Step_handleLogEntry \<lparr>timestamp = ''12:00:00'', phase = ''PLAN'',
         message = ''Starting planning phase'', raw = []\<rparr>" "''PLAN''" "[]"] h1 h2
  show ?thesis by simp
qed


section \<open>Finalizing a background run\<close>

lemma status_updatePhaseStatus [simp]: "status (updatePhaseStatus st p) = status st"
  by (simp add: updatePhaseStatus_def Let_def)

lemma status_markPhaseCompleted [simp]: "status (markPhaseCompleted st p) = status st"
  by (simp add: markPhaseCompleted_def Let_def)

lemma status_handleLogEntry_state [simp]: "status (handleLogEntry_state w entry st) = status st"
  by (simp add: handleLogEntry_state_def detect_phase_def push_log_def read_plan_text_def Let_def
           split: option.splits)

lemma pid_updatePhaseStatus [simp]: "pid (updatePhaseStatus st p) = pid st"
  by (simp add: updatePhaseStatus_def Let_def)

lemma pid_markPhaseCompleted [simp]: "pid (markPhaseCompleted st p) = pid st"
  by (simp add: markPhaseCompleted_def Let_def)

lemma pid_handleLogEntry_state [simp]: "pid (handleLogEntry_state w entry st) = pid st"
  by (simp add: handleLogEntry_state_def detect_phase_def push_log_def read_plan_text_def Let_def
           split: option.splits)

lemma poll_line_keeps:
  "status (fst (poll_line w rid line sr)) = status (fst sr) \<and>
   pid (fst (poll_line w rid line sr)) = pid (fst sr)"
  by (simp add: poll_line_def Let_def split: option.splits)

lemma poll_lines_keep:
  "status (fst (foldl (\<lambda>s line. poll_line w rid line s) sr ls)) = status (fst sr) \<and>
   pid (fst (foldl (\<lambda>s line. poll_line w rid line s) sr ls)) = pid (fst sr)"
  by (induction ls arbitrary: sr) (simp_all add: poll_line_keeps)

lemma poll_chunk_keeps:
  "status (fst (snd (poll_chunk w rid current chunk sr))) = status (fst sr) \<and>
   pid (fst (snd (poll_chunk w rid current chunk sr))) = pid (fst sr)"
  by (simp add: poll_chunk_def Let_def poll_lines_keep)

lemma poll_tail_keeps: "status (fst (poll_tail w rid buf sr)) = status (fst sr)"
  by (simp add: poll_tail_def Let_def split: option.splits)

subsection \<open>The completion criterion\<close>

lemma startsWith_iff: "startsWith s p \<longleftrightarrow> (\<exists>b. s = p @ b)"
proof
  assume "startsWith s p"
  then have "s = p @ drop (length p) s"
    unfolding startsWith_def by (metis append_take_drop_id)
  then show "\<exists>b. s = p @ b" ..
next
  assume "\<exists>b. s = p @ b"
  then show "startsWith s p" by (auto simp: startsWith_def)
qed

lemma str_includes_iff: "str_includes s p \<longleftrightarrow> (\<exists>a b. s = a @ p @ b)"
proof (induction s)
  case Nil
  show ?case by auto
next
  case (Cons x xs)
  show ?case
  proof
    assume "str_includes (x # xs) p"
    then consider "startsWith (x # xs) p" | "str_includes xs p" by auto
    then show "\<exists>a b. x # xs = a @ p @ b"
    proof cases
      case 1
      then obtain b where "x # xs = p @ b" unfolding startsWith_iff ..
      then have "x # xs = [] @ p @ b" by simp
      then show ?thesis by blast
    next
      case 2
      with Cons obtain a b where "xs = a @ p @ b" by blast
      then have "x # xs = (x # a) @ p @ b" by simp
      then show ?thesis by blast
    qed
  next
    assume "\<exists>a b. x # xs = a @ p @ b"
    then obtain a b where ab: "x # xs = a @ p @ b" by blast
    show "str_includes (x # xs) p"
    proof (cases a)
      case Nil
      with ab have "startsWith (x # xs) p" unfolding startsWith_iff by auto
      then show ?thesis by simp
    next
      case (Cons y a')
      with ab have "xs = a' @ p @ b" by simp
      with Cons.IH have "str_includes xs p" by blast
      then show ?thesis by simp
    qed
  qed
qed

lemma inferCompletedFromLogs_iff:
  "inferCompletedFromLogs st \<longleftrightarrow> (\<exists>e \<in> set (logs st). done_with_duration e)"
  by (simp add: inferCompletedFromLogs_def done_with_duration_def list_ex_iff str_includes_iff)

subsection \<open>The log after a tick\<close>

lemma keep_last_append: "keep_last n (keep_last n xs @ ys) = keep_last n (xs @ ys)"
proof (cases "length xs \<le> n")
  case True
  then show ?thesis by (simp add: keep_last_def)
next
  case False
  then have a: "length xs - n + n = length xs" by simp
  have b: "length xs + length ys - n - length xs = length ys - n"
    using False by simp
  have c: "length ys + (length xs - n) = length xs + length ys - n"
    using False by simp
  show ?thesis
    by (simp add: keep_last_def a b c)
qed

lemma retained_Nil [simp]: "retained old [] = old"
  by (simp add: retained_def)

lemma retained_retained: "retained (retained old a) b = retained old (a @ b)"
  by (auto simp: retained_def keep_last_append)

lemma parsed_lines_append: "parsed_lines w (xs @ ys) = parsed_lines w xs @ parsed_lines w ys"
  by (simp add: parsed_lines_def map_filter_def)

lemma parsed_lines_Nil [simp]: "parsed_lines w [] = []"
  by (simp add: parsed_lines_def map_filter_def)

lemma logs_handleLogEntry_state:
  "logs (handleLogEntry_state w entry st) = retained (logs st) [entry]"
proof -
  have a: "logs (detect_phase entry s) = logs s" for s
    by (simp add: detect_phase_def Let_def updatePhaseStatus_def markPhaseCompleted_def
          split: option.splits)
  have b: "logs (read_plan_text w entry st) = logs st"
    by (simp add: read_plan_text_def Let_def split: option.splits)
  show ?thesis
    by (simp add: handleLogEntry_state_def a push_log_def Let_def b retained_def keep_last_def)
qed

lemma logs_poll_line:
  "logs (fst (poll_line w rid line sr)) = retained (logs (fst sr)) (parsed_lines w [line])"
  by (simp add: poll_line_def Let_def parsed_lines_def map_filter_def logs_handleLogEntry_state
        split: option.splits)

lemma logs_poll_lines:
  "logs (fst (foldl (\<lambda>s line. poll_line w rid line s) sr ls)) = retained (logs (fst sr)) (parsed_lines w ls)"
proof (induction ls arbitrary: sr)
  case Nil
  show ?case by simp
next
  case (Cons l ls)
  have "parsed_lines w (l # ls) = parsed_lines w [l] @ parsed_lines w ls"
    using parsed_lines_append[of w "[l]" ls] by simp
  then show ?case
    by (simp add: Cons.IH logs_poll_line retained_retained)
qed

lemma logs_poll_tail:
  "logs (fst (poll_tail w rid buf sr)) = retained (logs (fst sr)) (parsed_lines w [buf])"
  by (simp add: poll_tail_def Let_def parsed_lines_def map_filter_def logs_handleLogEntry_state
        split: option.splits)

lemma logs_poll_dead_state:
  "logs (fst (poll_tail w rid (fst (poll_chunk w rid current chunk (st, reg)))
                (snd (poll_chunk w rid current chunk (st, reg)))))
     = retained (logs st) (tick_entries w (logLineBuffer current) chunk)"
proof (cases "chunk = []")
  case True
  then show ?thesis
    by (simp add: logs_poll_tail poll_chunk_def tick_entries_def)
next
  case False
  let ?lines = "split_on nl (logLineBuffer current @ chunk)"
  have ne: "?lines \<noteq> []" by (rule split_on_not_Nil)
  then have "parsed_lines w ?lines = parsed_lines w (butlast ?lines) @ parsed_lines w [last ?lines]"
    using parsed_lines_append[of w "butlast ?lines" "[last ?lines]"] by simp
  with False show ?thesis
    by (simp add: logs_poll_tail poll_chunk_def Let_def tick_entries_def logs_poll_lines
          retained_retained)
qed

lemma poll_dead:
  assumes cur: "activeRuns reg rid = Some current"
    and run: "status st = running"
    and rd: "(case logFilePath st of None \<Rightarrow> Some ([], logFileOffset st)
              | Some path \<Rightarrow> readNewLogChunk w path (logFileOffset st)) = Some (chunk, nextOffset)"
    and dead: "\<not> isProcessAlive w (pid st)"
  shows "\<exists>st2 reg2. poll w rid (st, reg) = finalizeBackgroundRun w rid (st2, reg2) \<and>
           status st2 = running \<and>
           logs st2 = retained (logs st) (tick_entries w (logLineBuffer current) chunk)"
proof -
  let ?bs = "poll_chunk w rid current chunk (st\<lparr>logFileOffset := nextOffset\<rparr>, reg)"
  let ?sr2 = "poll_tail w rid (fst ?bs) (snd ?bs)"
  have k1: "status (fst (snd ?bs)) = running" "pid (fst (snd ?bs)) = pid st"
    using run by (simp_all add: poll_chunk_keeps)
  have k2: "status (fst ?sr2) = running"
    using k1 by (simp add: poll_tail_keeps)
  have k3: "logs (fst ?sr2) = retained (logs st) (tick_entries w (logLineBuffer current) chunk)"
    using logs_poll_dead_state[of w rid current chunk "st\<lparr>logFileOffset := nextOffset\<rparr>" reg]
    by simp
  have "poll w rid (st, reg) = finalizeBackgroundRun w rid (fst ?sr2, stopPolling rid (snd ?sr2))"
    unfolding poll_def using cur run rd dead k1(2)
    by (simp add: Let_def)
  with k2 k3 show ?thesis by blast
qed

lemma finalize_running:
  assumes "status st = running"
  shows "status (fst (finalizeBackgroundRun w rid (st, reg))) =
           (if \<exists>e \<in> set (logs st). done_with_duration e then run_completed else run_failed)"
    and "phases (fst (finalizeBackgroundRun w rid (st, reg))) =
           retire_active (\<lambda>p. False)
             (if \<exists>e \<in> set (logs st). done_with_duration e then completed else failed) (phases st)"
    and "logs (fst (finalizeBackgroundRun w rid (st, reg))) = logs st"
proof -
  have inf: "inferCompletedFromLogs (st\<lparr>finishedAt := Some (now w)\<rparr>)
      = (\<exists>e \<in> set (logs st). done_with_duration e)"
    by (simp add: inferCompletedFromLogs_iff)
  show "status (fst (finalizeBackgroundRun w rid (st, reg))) =
           (if \<exists>e \<in> set (logs st). done_with_duration e then run_completed else run_failed)"
    using assms by (simp add: finalizeBackgroundRun_def Let_def inf)
  show "phases (fst (finalizeBackgroundRun w rid (st, reg))) =
           retire_active (\<lambda>p. False)
             (if \<exists>e \<in> set (logs st). done_with_duration e then completed else failed) (phases st)"
    using assms by (simp add: finalizeBackgroundRun_def Let_def inf)
  show "logs (fst (finalizeBackgroundRun w rid (st, reg))) = logs st"
    using assms by (simp add: finalizeBackgroundRun_def Let_def inf)
qed

text \<open>
  Claim C4. Let a background run be running. Finalizing it sets its status to completed
  exactly when its retained log has a DONE entry whose message contains "Total duration:",
  and to failed otherwise; each of the nine phases that was active becomes completed,
  respectively failed, and no other phase changes. When a tick of the poller reads new text
  and finds the process dead, the retained log is the old log followed by the entries of
  the lines read (cut to the last 10000), the status is completed exactly when that log has
  such a DONE entry and failed otherwise, and no phase is active afterwards.
\<close>

theorem finalizeBackgroundRun_outcome:
  assumes "status st = running"
  shows
    "(status (fst (finalizeBackgroundRun w rid (st, reg))) = run_completed \<longleftrightarrow>
        (\<exists>e \<in> set (logs st). toUpperCase (phase e) = ''DONE'' \<and>
                               (\<exists>a b. message e = a @ ''Total duration:'' @ b))) \<and>
     (status (fst (finalizeBackgroundRun w rid (st, reg))) = run_failed \<longleftrightarrow>
        \<not> (\<exists>e \<in> set (logs st). toUpperCase (phase e) = ''DONE'' \<and>
                                 (\<exists>a b. message e = a @ ''Total duration:'' @ b))) \<and>
     (phases st p = Some active \<and> p \<in> set PIPELINE_PHASES \<longrightarrow>
        phases (fst (finalizeBackgroundRun w rid (st, reg))) p =
          Some (if \<exists>e \<in> set (logs st). toUpperCase (phase e) = ''DONE'' \<and>
                                         (\<exists>a b. message e = a @ ''Total duration:'' @ b)
                then completed else failed)) \<and>
     (phases st p \<noteq> Some active \<longrightarrow>
        phases (fst (finalizeBackgroundRun w rid (st, reg))) p = phases st p) \<and>
     (activeRuns reg rid = Some current \<and> \<not> isProcessAlive w (pid st) \<and>
      (case logFilePath st of None \<Rightarrow> Some ([], logFileOffset st)
         | Some path \<Rightarrow> readNewLogChunk w path (logFileOffset st)) = Some (chunk, nextOffset) \<longrightarrow>
        logs (fst (poll w rid (st, reg)))
          = retained (logs st) (tick_entries w (logLineBuffer current) chunk) \<and>
        (status (fst (poll w rid (st, reg))) = run_completed \<longleftrightarrow>
           (\<exists>e \<in> set (retained (logs st) (tick_entries w (logLineBuffer current) chunk)).
              toUpperCase (phase e) = ''DONE'' \<and> (\<exists>a b. message e = a @ ''Total duration:'' @ b))) \<and>
        (status (fst (poll w rid (st, reg))) = run_failed \<longleftrightarrow>
           \<not> (\<exists>e \<in> set (retained (logs st) (tick_entries w (logLineBuffer current) chunk)).
              toUpperCase (phase e) = ''DONE'' \<and> (\<exists>a b. message e = a @ ''Total duration:'' @ b))) \<and>
        (q \<in> set PIPELINE_PHASES \<longrightarrow> phases (fst (poll w rid (st, reg))) q \<noteq> Some active))"
proof -
  note f = finalize_running[OF assms, of w rid reg]
  have direct:
    "(status (fst (finalizeBackgroundRun w rid (st, reg))) = run_completed \<longleftrightarrow>
        (\<exists>e \<in> set (logs st). done_with_duration e)) \<and>
     (status (fst (finalizeBackgroundRun w rid (st, reg))) = run_failed \<longleftrightarrow>
        \<not> (\<exists>e \<in> set (logs st). done_with_duration e)) \<and>
     (phases st p = Some active \<and> p \<in> set PIPELINE_PHASES \<longrightarrow>
        phases (fst (finalizeBackgroundRun w rid (st, reg))) p =
          Some (if \<exists>e \<in> set (logs st). done_with_duration e then completed else failed)) \<and>
     (phases st p \<noteq> Some active \<longrightarrow>
        phases (fst (finalizeBackgroundRun w rid (st, reg))) p = phases st p)"
    by (simp add: f retire_active_apply)
  have tick:
    "logs (fst (poll w rid (st, reg)))
          = retained (logs st) (tick_entries w (logLineBuffer current) chunk) \<and>
        (status (fst (poll w rid (st, reg))) = run_completed \<longleftrightarrow>
           (\<exists>e \<in> set (retained (logs st) (tick_entries w (logLineBuffer current) chunk)).
              done_with_duration e)) \<and>
        (status (fst (poll w rid (st, reg))) = run_failed \<longleftrightarrow>
           \<not> (\<exists>e \<in> set (retained (logs st) (tick_entries w (logLineBuffer current) chunk)).
              done_with_duration e)) \<and>
        (q \<in> set PIPELINE_PHASES \<longrightarrow> phases (fst (poll w rid (st, reg))) q \<noteq> Some active)"
    if h: "activeRuns reg rid = Some current" "\<not> isProcessAlive w (pid st)"
      "(case logFilePath st of None \<Rightarrow> Some ([], logFileOffset st)
         | Some path \<Rightarrow> readNewLogChunk w path (logFileOffset st)) = Some (chunk, nextOffset)"
  proof -
    obtain st2 reg2 where p: "poll w rid (st, reg) = finalizeBackgroundRun w rid (st2, reg2)"
      and r2: "status st2 = running"
      and l2: "logs st2 = retained (logs st) (tick_entries w (logLineBuffer current) chunk)"
      using poll_dead[OF h(1) assms h(3) h(2)] by blast
    note g = finalize_running[OF r2, of w rid reg2]
    show ?thesis
      unfolding p by (simp add: g l2 retire_active_apply)
  qed
  from direct tick show ?thesis
    unfolding done_with_duration_def by blast
qed

text \<open>
  The example of the specification: the log file holds the driver's last line,
  "[12:00:00] [DONE] Total duration: 42s", and the process is gone; one tick of the poller
  finalizes the run as completed. Without that line the run is finalized as failed.
\<close>

theorem finalizeBackgroundRun_outcome_witness:
  "status bg_run = running \<and>
   activeRuns (register bg_run empty_registry) ''run-1''
     = Some \<lparr>state = bg_run, process = True, logPoller = False, logLineBuffer = []\<rparr> \<and>
   \<not> isProcessAlive dead_world (pid bg_run) \<and>
   tick_entries dead_world [] (''[12:00:00] [DONE] Total duration: 42s'' @ [nl])
     = [\<lparr>timestamp = ''12:00:00'', phase = ''DONE'', message = ''Total duration: 42s'',
         raw = ''[12:00:00] [DONE] Total duration: 42s''\<rparr>] \<and>
   status (fst (poll dead_world ''run-1'' (bg_run, register bg_run empty_registry))) = run_completed \<and>
   status (fst (finalizeBackgroundRun dead_world ''run-1'' (bg_run, empty_registry))) = run_failed"
proof -
  let ?E = "\<lparr>timestamp = ''12:00:00'', phase = ''DONE'', message = ''Total duration: 42s'',
         raw = ''[12:00:00] [DONE] Total duration: 42s''\<rparr>"
  let ?chunk = "''[12:00:00] [DONE] Total duration: 42s'' @ [nl]"
  let ?cur = "\<lparr>state = bg_run, process = True, logPoller = False, logLineBuffer = []\<rparr>"
  have h: "status bg_run = running" by code_simp
  have cur: "activeRuns (register bg_run empty_registry) ''run-1'' = Some ?cur"
    by (simp add: register_def persistRunState_def schedulePersist_def empty_registry_def
          bg_run_def startRun_state_def)
  have dead: "\<not> isProcessAlive dead_world (pid bg_run)" by code_simp
  have rd: "(case logFilePath bg_run of None \<Rightarrow> Some ([], logFileOffset bg_run)
         | Some path \<Rightarrow> readNewLogChunk dead_world path (logFileOffset bg_run)) = Some (?chunk, 39)"
    by (simp add: bg_run_def startRun_state_def dead_world_def)
  have te: "tick_entries dead_world [] ?chunk = [?E]" by code_simp
  have te': "tick_entries dead_world (logLineBuffer ?cur) ?chunk = [?E]" by code_simp
  have ret: "retained (logs bg_run) [?E] = [?E]" by code_simp
  have re: "retained (logs bg_run) (tick_entries dead_world (logLineBuffer ?cur) ?chunk) = [?E]"
    by (simp only: te' ret)
  have up: "toUpperCase (phase ?E) = ''DONE''" by code_simp
  have "message ?E = [] @ ''Total duration:'' @ '' 42s''" by simp
  with up have ex: "\<exists>e \<in> set [?E]. toUpperCase (phase e) = ''DONE'' \<and>
      (\<exists>a b. message e = a @ ''Total duration:'' @ b)"
    by (metis list.set_intros(1))
  have none: "logs bg_run = []" by code_simp
  note t = finalizeBackgroundRun_outcome[OF h, of dead_world "''run-1''" "register bg_run empty_registry"
      _ ?cur ?chunk 39]
  from t cur dead rd have
    "status (fst (poll dead_world ''run-1'' (bg_run, register bg_run empty_registry))) = run_completed \<longleftrightarrow>
       (\<exists>e \<in> set (retained (logs bg_run) (tick_entries dead_world (logLineBuffer ?cur) ?chunk)).
          toUpperCase (phase e) = ''DONE'' \<and> (\<exists>a b. message e = a @ ''Total duration:'' @ b))"
    by blast
  with ex have a: "status (fst (poll dead_world ''run-1'' (bg_run, register bg_run empty_registry)))
      = run_completed"
    unfolding re by blast
  from finalizeBackgroundRun_outcome[OF h, of dead_world "''run-1''" empty_registry] none
  have b: "status (fst (finalizeBackgroundRun dead_world ''run-1'' (bg_run, empty_registry))) = run_failed"
    by simp
  from h cur dead te a b show ?thesis by blast
qed

section \<open>Stopping a run\<close>

lemma getRunState_emit [simp]: "getRunState (emit e reg) rid = getRunState reg rid"
  by (simp add: getRunState_def emit_def split: option.splits)

lemma getRunState_kill_signals [simp]:
  "getRunState (kill_signals kill_throws r hp p reg) rid = getRunState reg rid"
  by (simp add: kill_signals_def Let_def split: option.splits)

lemma getRunState_stopPolling [simp]: "getRunState (stopPolling r reg) rid = getRunState reg rid"
  by (simp add: stopPolling_def getRunState_def emit_def split: option.splits)

lemma getRunState_schedulePersist [simp]: "getRunState (schedulePersist reg) rid = getRunState reg rid"
  by (simp add: schedulePersist_def getRunState_def split: option.splits)

lemma stopRun_stopped:
  assumes "fst (stopRun w kill_throws rid reg)"
  shows "case getRunState (snd (stopRun w kill_throws rid reg)) rid of
           Some st \<Rightarrow> status st = stopped | None \<Rightarrow> False"
proof (cases "activeRuns reg rid")
  case None
  with assms obtain p where p: "persistedRuns reg rid = Some p" "status p = running"
    by (auto simp: stopRun_def Let_def split: option.splits if_splits)
  with None show ?thesis
    by (simp add: stopRun_def Let_def announce_done_def persistRunState_def setRun_def)
       (simp add: getRunState_def emit_def)
next
  case (Some a)
  with assms have "status (state a) = running"
    by (auto simp: stopRun_def Let_def split: option.splits if_splits)
  with Some show ?thesis
    by (simp add: stopRun_def Let_def announce_done_def persistRunState_def setRun_def)
       (simp add: getRunState_def emit_def)
qed

text \<open>
  Claim C10. stopRun answers true exactly when the run found under the identifier (the
  active one, else the persisted one) is running. When it answers false, the registry is
  as before: no run changed, nothing sent to the renderer, nothing persisted or scheduled,
  no signal delivered. When it answers true, the run is stopped afterwards.
\<close>

theorem stopRun_result:
  "(fst (stopRun w kill_throws rid reg) =
      (case getRunState reg rid of Some st \<Rightarrow> status st = running | None \<Rightarrow> False)) \<and>
   (\<not> fst (stopRun w kill_throws rid reg) \<longrightarrow> snd (stopRun w kill_throws rid reg) = reg) \<and>
   (fst (stopRun w kill_throws rid reg) \<longrightarrow>
      (case getRunState (snd (stopRun w kill_throws rid reg)) rid of
         Some st \<Rightarrow> status st = stopped | None \<Rightarrow> False))"
proof -
  have a: "fst (stopRun w kill_throws rid reg) =
      (case getRunState reg rid of Some st \<Rightarrow> status st = running | None \<Rightarrow> False)"
    by (auto simp: stopRun_def getRunState_def Let_def split: option.splits)
  have b: "\<not> fst (stopRun w kill_throws rid reg) \<longrightarrow> snd (stopRun w kill_throws rid reg) = reg"
    by (auto simp: stopRun_def Let_def split: option.splits)
  from a b stopRun_stopped[of w kill_throws rid reg] show ?thesis by blast
qed

theorem stopRun_result_witness:
  "getRunState (register finished_run empty_registry) ''run-1'' = Some finished_run \<and>
   status finished_run = run_completed \<and>
   \<not> fst (stopRun dead_world (\<lambda>p s. False) ''run-1'' (register finished_run empty_registry)) \<and>
   snd (stopRun dead_world (\<lambda>p s. False) ''run-1'' (register finished_run empty_registry))
     = register finished_run empty_registry \<and>
   \<not> fst (stopRun dead_world (\<lambda>p s. False) ''run-2'' (register finished_run empty_registry)) \<and>
   fst (stopRun dead_world (\<lambda>p s. False) ''run-1'' (register bg_run empty_registry))"
proof -
  have g1: "getRunState (register finished_run empty_registry) ''run-1'' = Some finished_run"
    by (simp add: getRunState_def register_def persistRunState_def schedulePersist_def
          empty_registry_def finished_run_def startRun_state_def)
  have s1: "status finished_run = run_completed"
    by (simp add: finished_run_def)
  have g2: "getRunState (register finished_run empty_registry) ''run-2'' = None"
    by (simp add: getRunState_def register_def persistRunState_def schedulePersist_def
          empty_registry_def finished_run_def startRun_state_def)
  have g3: "getRunState (register bg_run empty_registry) ''run-1'' = Some bg_run"
    by (simp add: getRunState_def register_def persistRunState_def schedulePersist_def
          empty_registry_def bg_run_def startRun_state_def)
  have s3: "status bg_run = running"
    by (simp add: bg_run_def startRun_state_def)
  from stopRun_result[of dead_world "\<lambda>p s. False" "''run-1''" "register finished_run empty_registry"]
       stopRun_result[of dead_world "\<lambda>p s. False" "''run-2''" "register finished_run empty_registry"]
       stopRun_result[of dead_world "\<lambda>p s. False" "''run-1''" "register bg_run empty_registry"]
       g1 s1 g2 g3 s3
  show ?thesis by simp
qed

section \<open>Auto-merge after a completed run\<close>

text \<open>
  Claim C9 says that the merge is skipped only on a conflict. When the refresh itself fails
  (here \<open>gh pr view\<close> reports a reset connection), the refreshed status is failed, not
  conflict, and no merge is requested.
\<close>

theorem maybeAutoMergeRun_skips_failed_refresh:
  "merge_status (maybeAutoMergeRun (Inl ''gh: connection reset by peer'') None (Inl ''unused'') ''run-1''
      (register pr_run empty_registry)) ''run-1'' = Some pr_failed \<and>
   \<not> merge_requested (register pr_run empty_registry)
      (maybeAutoMergeRun (Inl ''gh: connection reset by peer'') None (Inl ''unused'') ''run-1''
         (register pr_run empty_registry))"
  by code_simp

lemma effects_update_and_announce [simp]:
  "effects (update_and_announce rid st reg) = effects reg @ [RUN_STATUS rid st]"
  by (simp add: update_and_announce_def persistRunState_def schedulePersist_def emit_def setRun_def
           split: option.splits)

lemma getRunById_update_and_announce [simp]:
  "getRunById reg rid = Some st0 \<Longrightarrow> getRunById (update_and_announce rid st reg) rid = Some st"
  by (auto simp: update_and_announce_def persistRunState_def schedulePersist_def emit_def setRun_def
           getRunById_def split: option.splits)

lemma getRunById_emit [simp]: "getRunById (emit e reg) rid = getRunById reg rid"
  by (simp add: getRunById_def emit_def split: option.splits)

lemma effects_emit [simp]: "effects (emit e reg) = effects reg @ [e]"
  by (simp add: emit_def)

lemma refresh_found:
  assumes "getRunById reg rid = Some st" and "truthy (prUrl st)"
  shows "getRunById (snd (refreshRunPrStatus answer rid reg)) rid = Some (refreshed answer st)"
    and "effects (snd (refreshRunPrStatus answer rid reg)) =
           effects reg @ [RUN_STATUS rid (st\<lparr>prMergeStatus := pr_checking,
                   prMergeMessage := Some ''Checking pull request status...''\<rparr>),
                          RUN_STATUS rid (refreshed answer st)]"
    and "ok (fst (refreshRunPrStatus answer rid reg)) = (case answer of Inr v \<Rightarrow> True | Inl m \<Rightarrow> False)"
  using assms
  by (auto simp: refreshRunPrStatus_def refreshed_def Let_def split: sum.splits)

lemma truthy_or_else: "truthy d \<Longrightarrow> truthy (or_else s d)"
  by (simp add: or_else_def truthy_def)

lemma refreshed_keeps:
  "truthy (prUrl st) \<Longrightarrow> truthy (prUrl (refreshed answer st))"
  by (auto simp: refreshed_def applyPrView_def Let_def truthy_or_else split: sum.splits)

lemma executeMerge_requests:
  assumes "getRunById reg rid = Some st" and "truthy (prUrl st)"
  shows "\<exists>x es. effects (snd (executeMerge m v rid reg)) =
           effects reg @ RUN_STATUS rid x # gh_pr_merge (the (prUrl st)) # es"
proof (cases m)
  case (Some msg)
  with assms show ?thesis
    by (simp add: executeMerge_def Let_def)
next
  case None
  let ?st1 = "st\<lparr>prMergeStatus := pr_auto_merging,
                          prMergeMessage := Some ''Submitting merge request...''\<rparr>"
  let ?reg1 = "emit (gh_pr_merge (the (prUrl st))) (update_and_announce rid ?st1 reg)"
  have g: "getRunById ?reg1 rid = Some ?st1" using assms by simp
  have t: "truthy (prUrl ?st1)" using assms by simp
  note r = refresh_found[OF g t, of v]
  have g2: "getRunById (snd (refreshRunPrStatus v rid ?reg1)) rid = Some (refreshed v ?st1)"
    by (rule r(1))
  show ?thesis
    using assms None
    by (simp add: executeMerge_def Let_def r(2) g2)
qed


lemma new_effects_append: "effects reg' = effects reg @ es \<Longrightarrow> new_effects reg reg' = es"
  by (simp add: new_effects_def)

lemma merge_status_refreshed_cases:
  "prMergeStatus (refreshed a st) \<in> {pr_ready, pr_checking, pr_conflict, pr_merged, pr_failed}"
  by (auto simp: refreshed_def applyPrView_def Let_def split: sum.splits)

lemma refreshed_ok_or_failed:
  "(case a of Inr v \<Rightarrow> True | Inl m \<Rightarrow> False) \<or> prMergeStatus (refreshed a st) = pr_failed"
  by (auto simp: refreshed_def split: sum.splits)

lemma refreshed_failed_iff:
  "prMergeStatus (refreshed a st) = pr_failed \<longleftrightarrow> (case a of Inr v \<Rightarrow> False | Inl m \<Rightarrow> True)"
  by (auto simp: refreshed_def applyPrView_def Let_def split: sum.splits)

text \<open>
  maybeAutoMergeRun on a completed run with a pull request and auto-merge requested: the
  merge is requested exactly when the refreshed status is ready or checking; on a conflict
  the message that points to Resolve & Merge is recorded.
\<close>

lemma maybeAutoMergeRun_merge_cases:
  assumes "getRunById reg rid = Some st" and "autoMerge st" and "truthy (prUrl st)"
    and "status st = run_completed"
  shows
    "merge_status (snd (refreshRunPrStatus view1 rid reg)) rid \<in>
       {Some pr_ready, Some pr_checking, Some pr_conflict, Some pr_merged, Some pr_failed} \<and>
     (merge_requested reg (maybeAutoMergeRun view1 merge_answer view2 rid reg) \<longleftrightarrow>
        merge_status (snd (refreshRunPrStatus view1 rid reg)) rid = Some pr_ready \<or>
        merge_status (snd (refreshRunPrStatus view1 rid reg)) rid = Some pr_checking) \<and>
     (merge_status (snd (refreshRunPrStatus view1 rid reg)) rid = Some pr_conflict \<longrightarrow>
        merge_message (maybeAutoMergeRun view1 merge_answer view2 rid reg) rid =
          Some ''Auto-merge skipped because this PR has merge conflicts. Use Resolve & Merge.'')"
proof -
  let ?rr = "refreshRunPrStatus view1 rid reg"
  let ?st1 = "refreshed view1 st"
  note r = refresh_found[OF assms(1,3), of view1]
  have ms: "merge_status (snd ?rr) rid = Some (prMergeStatus ?st1)"
    by (simp add: merge_status_def r(1))
  have t1: "truthy (prUrl ?st1)"
    using assms(3) by (rule refreshed_keeps)
  have unfold: "maybeAutoMergeRun view1 merge_answer view2 rid reg =
      (if \<not> ok (fst ?rr) \<and> prMergeStatus ?st1 = pr_failed then snd ?rr
       else if prMergeStatus ?st1 = pr_conflict then
         update_and_announce rid
           (?st1\<lparr>prMergeMessage :=
               Some ''Auto-merge skipped because this PR has merge conflicts. Use Resolve & Merge.''\<rparr>)
           (snd ?rr)
       else if prMergeStatus ?st1 = pr_ready \<or> prMergeStatus ?st1 = pr_checking then
         snd (executeMerge merge_answer view2 rid (snd ?rr))
       else snd ?rr)"
    using assms by (simp add: maybeAutoMergeRun_def Let_def r(1))
  consider (go) "prMergeStatus ?st1 = pr_ready \<or> prMergeStatus ?st1 = pr_checking"
    | (conflict) "prMergeStatus ?st1 = pr_conflict"
    | (merged) "prMergeStatus ?st1 = pr_merged"
    | (failed) "prMergeStatus ?st1 = pr_failed"
    using merge_status_refreshed_cases[of view1 st] by auto
  then have main:
    "(merge_requested reg (maybeAutoMergeRun view1 merge_answer view2 rid reg) \<longleftrightarrow>
        prMergeStatus ?st1 = pr_ready \<or> prMergeStatus ?st1 = pr_checking) \<and>
     (prMergeStatus ?st1 = pr_conflict \<longrightarrow>
        merge_message (maybeAutoMergeRun view1 merge_answer view2 rid reg) rid =
          Some ''Auto-merge skipped because this PR has merge conflicts. Use Resolve & Merge.'')"
  proof cases
    case go
    obtain x es where e: "effects (snd (executeMerge merge_answer view2 rid (snd ?rr))) =
           effects (snd ?rr) @ RUN_STATUS rid x # gh_pr_merge (the (prUrl ?st1)) # es"
      using executeMerge_requests[OF r(1) t1] by blast
    have "new_effects reg (snd (executeMerge merge_answer view2 rid (snd ?rr))) =
        [RUN_STATUS rid (st\<lparr>prMergeStatus := pr_checking,
                   prMergeMessage := Some ''Checking pull request status...''\<rparr>),
         RUN_STATUS rid ?st1] @ RUN_STATUS rid x # gh_pr_merge (the (prUrl ?st1)) # es"
      by (rule new_effects_append) (simp add: e r(2))
    with go show ?thesis
      unfolding unfold by (auto simp: merge_requested_def is_merge_request_def)
  next
    case conflict
    have ne: "new_effects reg (update_and_announce rid
           (?st1\<lparr>prMergeMessage :=
               Some ''Auto-merge skipped because this PR has merge conflicts. Use Resolve & Merge.''\<rparr>)
           (snd ?rr)) =
        [RUN_STATUS rid (st\<lparr>prMergeStatus := pr_checking,
                   prMergeMessage := Some ''Checking pull request status...''\<rparr>),
         RUN_STATUS rid ?st1,
         RUN_STATUS rid (?st1\<lparr>prMergeMessage :=
               Some ''Auto-merge skipped because this PR has merge conflicts. Use Resolve & Merge.''\<rparr>)]"
      by (rule new_effects_append) (simp add: r(2))
    from conflict show ?thesis
      unfolding unfold
      by (simp add: merge_requested_def ne is_merge_request_def merge_message_def
            getRunById_update_and_announce[OF r(1)])
  next
    case merged
    have ne: "new_effects reg (snd ?rr) =
        [RUN_STATUS rid (st\<lparr>prMergeStatus := pr_checking,
                   prMergeMessage := Some ''Checking pull request status...''\<rparr>),
         RUN_STATUS rid ?st1]"
      by (rule new_effects_append) (simp add: r(2))
    from merged show ?thesis
      unfolding unfold by (simp add: merge_requested_def ne is_merge_request_def)
  next
    case failed
    have ne: "new_effects reg (snd ?rr) =
        [RUN_STATUS rid (st\<lparr>prMergeStatus := pr_checking,
                   prMergeMessage := Some ''Checking pull request status...''\<rparr>),
         RUN_STATUS rid ?st1]"
      by (rule new_effects_append) (simp add: r(2))
    from failed show ?thesis
      unfolding unfold by (simp add: merge_requested_def ne is_merge_request_def)
  qed
  from main ms merge_status_refreshed_cases[of view1 st] show ?thesis
    by auto
qed

section \<open>Reconciling running runs at startup\<close>

text \<open>
  Claim C5 says that log tailing resumes for every adopted run. A background run persisted
  before the driver announced its log file has no log-file path; when its process id is
  alive at startup, the run is adopted and remains running, but no poller is started.
\<close>

theorem loadPersistedRuns_adopts_without_tailing:
  "status (backfill (stored_of bg_run_unannounced)) = running \<and>
   runMode (backfill (stored_of bg_run_unannounced)) = background \<and>
   isProcessAlive alive_world (pid (backfill (stored_of bg_run_unannounced))) \<and>
   adopted (loadPersistedRuns alive_world (Some [stored_of bg_run_unannounced]) empty_registry) ''run-1'' \<and>
   \<not> tailing (loadPersistedRuns alive_world (Some [stored_of bg_run_unannounced]) empty_registry) ''run-1'' \<and>
   map_option status (getRunById
      (loadPersistedRuns alive_world (Some [stored_of bg_run_unannounced]) empty_registry) ''run-1'')
     = Some running"
  by code_simp

lemma activeRuns_emit [simp]: "activeRuns (emit e reg) = activeRuns reg"
  by (simp add: emit_def)

lemma activeRuns_persistRunState [simp]: "activeRuns (persistRunState st reg) = activeRuns reg"
  by (simp add: persistRunState_def schedulePersist_def)

lemma activeRuns_handleLogEntry [simp]:
  "activeRuns (snd (handleLogEntry w rid entry sr)) = activeRuns (snd sr)"
  by (simp add: handleLogEntry_def Let_def)

lemma watch_setBuffer [simp]:
  "tailing (setBuffer r buf reg) rid = tailing reg rid"
  "adopted (setBuffer r buf reg) rid = adopted reg rid"
  by (auto simp: setBuffer_def tailing_def adopted_def split: option.splits)

lemma watch_handleLogEntry [simp]:
  "tailing (snd (handleLogEntry w r entry sr)) rid = tailing (snd sr) rid"
  "adopted (snd (handleLogEntry w r entry sr)) rid = adopted (snd sr) rid"
  by (simp_all add: tailing_def adopted_def)

lemma watch_poll_line:
  "tailing (snd (poll_line w r line sr)) rid = tailing (snd sr) rid \<and>
   adopted (snd (poll_line w r line sr)) rid = adopted (snd sr) rid"
  by (simp add: poll_line_def Let_def split: option.splits)

lemma watch_poll_lines:
  "tailing (snd (foldl (\<lambda>s line. poll_line w r line s) sr ls)) rid = tailing (snd sr) rid \<and>
   adopted (snd (foldl (\<lambda>s line. poll_line w r line s) sr ls)) rid = adopted (snd sr) rid"
  by (induction ls arbitrary: sr) (simp_all add: watch_poll_line)

lemma watch_poll_chunk:
  "tailing (snd (snd (poll_chunk w r current chunk sr))) rid = tailing (snd sr) rid \<and>
   adopted (snd (snd (poll_chunk w r current chunk sr))) rid = adopted (snd sr) rid"
  by (simp add: poll_chunk_def Let_def watch_poll_lines)

lemma poll_alive:
  assumes "status st = running" and "isProcessAlive w (pid st)"
  shows "tailing (snd (poll w rid (st, reg))) r = tailing reg r \<and>
         adopted (snd (poll w rid (st, reg))) r = adopted reg r \<and>
         status (fst (poll w rid (st, reg))) = running"
proof (cases "activeRuns reg rid")
  case None
  with assms show ?thesis by (simp add: poll_def)
next
  case (Some current)
  show ?thesis
  proof (cases "case logFilePath st of None \<Rightarrow> Some ([], logFileOffset st)
                   | Some path \<Rightarrow> readNewLogChunk w path (logFileOffset st)")
    case None
    with Some assms show ?thesis by (simp add: poll_def)
  next
    case (Some cn)
    obtain chunk nextOffset where cn: "cn = (chunk, nextOffset)" by (cases cn)
    let ?bs = "poll_chunk w rid current chunk (st\<lparr>logFileOffset := nextOffset\<rparr>, reg)"
    have k: "status (fst (snd ?bs)) = running" "pid (fst (snd ?bs)) = pid st"
      using assms(1) by (simp_all add: poll_chunk_keeps)
    have "poll w rid (st, reg) = snd ?bs"
      using \<open>activeRuns reg rid = Some current\<close> Some cn assms k(2)
      by (simp add: poll_def Let_def)
    then show ?thesis
      using k(1) watch_poll_chunk[of w rid current chunk "(st\<lparr>logFileOffset := nextOffset\<rparr>, reg)" r]
      by simp
  qed
qed


lemma keeps_refl [simp]: "keeps rid reg reg"
  by (simp add: keeps_def)

lemma keeps_trans: "keeps rid a b \<Longrightarrow> keeps rid b c \<Longrightarrow> keeps rid a c"
  by (simp add: keeps_def)

lemma keeps_emit [simp]: "keeps rid reg (emit e reg') = keeps rid reg reg'"
  by (simp add: keeps_def emit_def)

lemma keeps_persistRunState:
  "runId st \<noteq> rid \<Longrightarrow> keeps rid reg (persistRunState st reg') = keeps rid reg reg'"
  by (simp add: keeps_def persistRunState_def schedulePersist_def)

lemma keeps_setBuffer:
  "k \<noteq> rid \<Longrightarrow> keeps rid reg (setBuffer k buf reg') = keeps rid reg reg'"
  by (simp add: keeps_def setBuffer_def split: option.splits)

lemma keeps_stopPolling:
  "k \<noteq> rid \<Longrightarrow> keeps rid reg (stopPolling k reg') = keeps rid reg reg'"
  by (simp add: keeps_def stopPolling_def emit_def split: option.splits)

lemma keeps_setRun:
  "k \<noteq> rid \<Longrightarrow> keeps rid reg (setRun k st reg') = keeps rid reg reg'"
  by (simp add: keeps_def setRun_def split: option.splits)

lemma runId_handleLogEntry_state [simp]: "runId (handleLogEntry_state w entry st) = runId st"
  by (simp add: handleLogEntry_state_def detect_phase_def push_log_def read_plan_text_def Let_def
        updatePhaseStatus_def markPhaseCompleted_def split: option.splits)

lemma keeps_handleLogEntry:
  "runId (fst sr) \<noteq> rid \<Longrightarrow>
     keeps rid reg (snd (handleLogEntry w k entry sr)) = keeps rid reg (snd sr)"
  by (simp add: handleLogEntry_def Let_def keeps_persistRunState)

lemma keeps_poll_line:
  "runId (fst sr) \<noteq> rid \<Longrightarrow>
     keeps rid reg (snd (poll_line w k line sr)) = keeps rid reg (snd sr) \<and>
     runId (fst (poll_line w k line sr)) = runId (fst sr)"
  by (simp add: poll_line_def Let_def keeps_handleLogEntry split: option.splits)

lemma keeps_poll_lines:
  "runId (fst sr) \<noteq> rid \<Longrightarrow>
     keeps rid reg (snd (foldl (\<lambda>s line. poll_line w k line s) sr ls)) = keeps rid reg (snd sr) \<and>
     runId (fst (foldl (\<lambda>s line. poll_line w k line s) sr ls)) = runId (fst sr)"
  by (induction ls arbitrary: sr) (simp_all add: keeps_poll_line)

lemma keeps_poll_chunk:
  "runId (fst sr) \<noteq> rid \<Longrightarrow> k \<noteq> rid \<Longrightarrow>
     keeps rid reg (snd (snd (poll_chunk w k current chunk sr))) = keeps rid reg (snd sr) \<and>
     runId (fst (snd (poll_chunk w k current chunk sr))) = runId (fst sr)"
  by (simp add: poll_chunk_def Let_def keeps_poll_lines keeps_setBuffer)

lemma keeps_poll_tail:
  "runId (fst sr) \<noteq> rid \<Longrightarrow> k \<noteq> rid \<Longrightarrow>
     keeps rid reg (snd (poll_tail w k buf sr)) = keeps rid reg (snd sr) \<and>
     runId (fst (poll_tail w k buf sr)) = runId (fst sr)"
  by (simp add: poll_tail_def Let_def keeps_handleLogEntry keeps_setBuffer split: option.splits)

lemma keeps_finalizeBackgroundRun:
  "runId (fst sr) \<noteq> rid \<Longrightarrow>
     keeps rid reg (snd (finalizeBackgroundRun w k sr)) = keeps rid reg (snd sr) \<and>
     runId (fst (finalizeBackgroundRun w k sr)) = runId (fst sr)"
  by (simp add: finalizeBackgroundRun_def Let_def keeps_persistRunState)

lemma keeps_poll:
  assumes "runId st \<noteq> rid" and "k \<noteq> rid"
  shows "keeps rid reg (snd (poll w k (st, reg'))) = keeps rid reg reg' \<and>
         runId (fst (poll w k (st, reg'))) = runId st"
proof -
  have a: "keeps rid reg (snd (snd (poll_chunk w k current chunk (st', reg')))) = keeps rid reg reg'"
    and b: "runId (fst (snd (poll_chunk w k current chunk (st', reg')))) = runId st"
    if "runId st' = runId st" for current chunk st'
    using keeps_poll_chunk[of "(st', reg')" rid k reg w current chunk] assms that
    by simp_all
  have c: "keeps rid reg (snd (poll_tail w k buf (snd (poll_chunk w k current chunk (st', reg')))))
             = keeps rid reg reg'"
    and d: "runId (fst (poll_tail w k buf (snd (poll_chunk w k current chunk (st', reg'))))) = runId st"
    if "runId st' = runId st" for current chunk st' buf
    using keeps_poll_tail[of "snd (poll_chunk w k current chunk (st', reg'))" rid k reg w buf]
      assms a[OF that] b[OF that] by simp_all
  show ?thesis
    using assms
    by (simp add: poll_def Let_def keeps_stopPolling keeps_finalizeBackgroundRun a b c d
          split: option.splits prod.splits)
qed

lemma keeps_load_one:
  assumes "runId (backfill run) \<noteq> rid"
  shows "keeps rid reg (snd (load_one w run (b, reg)))"
proof -
  let ?st = "backfill run"
  let ?k = "runId ?st"
  have p: "keeps rid reg (snd (poll w ?k (?st, reg'))) = keeps rid reg reg'"
      and q: "runId (fst (poll w ?k (?st, reg'))) = ?k" for reg'
    using keeps_poll[OF assms assms, of reg w reg'] by simp_all
  have base: "keeps rid reg (reg\<lparr>activeRuns := (activeRuns reg)(?k \<mapsto> a)\<rparr>)" for a
    using assms by (simp add: keeps_def)
  have upd: "keeps rid reg (r\<lparr>persistedRuns := (persistedRuns r)(?k \<mapsto> s)\<rparr>) = keeps rid reg r" for r s
    using assms by (simp add: keeps_def)
  have act: "keeps rid reg (r\<lparr>activeRuns := (activeRuns r)(?k \<mapsto> a)\<rparr>) = keeps rid reg r" for r a
    using assms by (simp add: keeps_def)
  show ?thesis
    using assms
    by (simp add: load_one_def Let_def startBackgroundLogPolling_def upd act p keeps_setRun
          split: option.splits)
qed


lemma watch_setRun:
  "adopted reg rid \<Longrightarrow>
     adopted (setRun rid st reg) rid \<and> tailing (setRun rid st reg) rid = tailing reg rid \<and>
     getRunById (setRun rid st reg) rid = Some st"
  by (auto simp: adopted_def tailing_def setRun_def getRunById_def split: option.splits)

lemma watch_persisted_update [simp]:
  "adopted (reg\<lparr>persistedRuns := p\<rparr>) rid = adopted reg rid"
  "tailing (reg\<lparr>persistedRuns := p\<rparr>) rid = tailing reg rid"
  by (simp_all add: adopted_def tailing_def)

lemma getRunById_adopted_persisted:
  "adopted reg rid \<Longrightarrow> getRunById (reg\<lparr>persistedRuns := p\<rparr>) rid = getRunById reg rid"
  by (auto simp: adopted_def getRunById_def split: option.splits)

lemma load_one_adopt:
  assumes run: "status (backfill run) = running"
    and bg: "runMode (backfill run) = background"
    and alive: "isProcessAlive w (pid (backfill run))"
  shows "adopted (snd (load_one w run (b, reg))) (runId (backfill run)) \<and>
         (tailing (snd (load_one w run (b, reg))) (runId (backfill run))
            \<longleftrightarrow> truthy (logFilePath (backfill run))) \<and>
         map_option status (getRunById (snd (load_one w run (b, reg))) (runId (backfill run)))
            = Some running"
proof -
  let ?st = "backfill run"
  let ?rid = "runId ?st"
  let ?fresh = "\<lparr>state = ?st, process = False, logPoller = False, logLineBuffer = []\<rparr>"
  let ?reg1 = "reg\<lparr>activeRuns := (activeRuns reg)(?rid \<mapsto> ?fresh)\<rparr>"
  let ?sr = "if truthy (logFilePath ?st) then startBackgroundLogPolling w ?rid (?st, ?reg1)
             else (?st, ?reg1)"
  have R: "snd (load_one w run (b, reg)) =
      (setRun ?rid (fst ?sr) (snd ?sr))\<lparr>persistedRuns :=
         (persistedRuns (setRun ?rid (fst ?sr) (snd ?sr)))(?rid \<mapsto> fst ?sr)\<rparr>"
    using run bg alive by (simp add: load_one_def Let_def)
  have sr: "adopted (snd ?sr) ?rid \<and> (tailing (snd ?sr) ?rid \<longleftrightarrow> truthy (logFilePath ?st)) \<and>
            status (fst ?sr) = running"
  proof (cases "truthy (logFilePath ?st)")
    case False
    with run show ?thesis by (simp add: adopted_def tailing_def)
  next
    case True
    let ?reg2 = "emit (setInterval_poll ?rid)
        (?reg1\<lparr>activeRuns := (activeRuns ?reg1)(?rid \<mapsto> ?fresh\<lparr>logPoller := True\<rparr>)\<rparr>)"
    have "?sr = poll w ?rid (?st, ?reg2)"
      using True by (simp add: startBackgroundLogPolling_def Let_def)
    moreover have "tailing ?reg2 ?rid" "adopted ?reg2 ?rid"
      by (simp_all add: tailing_def adopted_def)
    ultimately show ?thesis
      using poll_alive[OF run alive, of ?rid ?reg2 ?rid] True by simp
  qed
  then show ?thesis
    unfolding R using watch_setRun[of "snd ?sr" ?rid "fst ?sr"]
    by (simp add: getRunById_adopted_persisted)
qed

lemma load_one_stop:
  assumes run: "status (backfill run) = running"
    and no: "\<not> (runMode (backfill run) = background \<and> isProcessAlive w (pid (backfill run)))"
  shows "persistedRuns (snd (load_one w run (b, reg))) (runId (backfill run)) =
           Some ((backfill run)\<lparr>status := stopped,
                   finishedAt := (case finishedAt (backfill run) of
                                    Some t \<Rightarrow> Some t | None \<Rightarrow> Some (now w)),
                   logs := logs (backfill run) @ [restart_entry w]\<rparr>) \<and>
         activeRuns (snd (load_one w run (b, reg))) = activeRuns reg \<and>
         fst (load_one w run (b, reg))"
  using run no by (auto simp: load_one_def Let_def)


lemma keeps_observe:
  "keeps rid reg reg' \<Longrightarrow>
     adopted reg' rid = adopted reg rid \<and> tailing reg' rid = tailing reg rid \<and>
     getRunById reg' rid = getRunById reg rid \<and> persistedRuns reg' rid = persistedRuns reg rid"
  by (simp add: keeps_def adopted_def tailing_def getRunById_def split: option.splits)

lemma keeps_schedulePersist [simp]: "keeps rid reg (schedulePersist reg') = keeps rid reg reg'"
  by (simp add: keeps_def schedulePersist_def)

lemma keeps_load_rest:
  "rid \<notin> set (map (\<lambda>r. runId (backfill r)) post) \<Longrightarrow>
     keeps rid (snd br) (snd (foldl (\<lambda>b run. load_one w run b) br post))"
proof (induction post arbitrary: br)
  case Nil
  show ?case by simp
next
  case (Cons r post)
  have "keeps rid (snd br) (snd (load_one w r (fst br, snd br)))"
    using Cons.prems by (intro keeps_load_one) auto
  moreover have "keeps rid (snd (load_one w r br)) (snd (foldl (\<lambda>b run. load_one w run b) (load_one w r br) post))"
    using Cons.prems by (intro Cons.IH) auto
  ultimately show ?case
    by (auto intro: keeps_trans)
qed

lemma load_one_flag: "fst br \<Longrightarrow> fst (load_one w run br)"
  by (simp add: load_one_def Let_def)

lemma load_rest_flag: "fst br \<Longrightarrow> fst (foldl (\<lambda>b run. load_one w run b) br post)"
  by (induction post arbitrary: br) (simp_all add: load_one_flag)

text \<open>
  Claim C5, as the code has it. Let the history hold a run that is still running and whose
  identifier does not occur again later in the history. If it is a background run and its
  process answers signal 0, the run is in the active set after loading and still running,
  and its log file is tailed exactly when a log-file path was recorded for it. Otherwise
  the persisted run is stopped, its end time is set (an end time already recorded is kept),
  the entry "Run marked as stopped after app restart" is appended to its log, and a write
  of the history is scheduled.
\<close>

theorem loadPersistedRuns_reconciles:
  assumes "status (backfill run) = running"
    and "runId (backfill run) \<notin> set (map (\<lambda>r. runId (backfill r)) post)"
  shows
    "(runMode (backfill run) = background \<and> isProcessAlive w (pid (backfill run)) \<longrightarrow>
        adopted (loadPersistedRuns w (Some (pre @ run # post)) reg) (runId (backfill run)) \<and>
        (tailing (loadPersistedRuns w (Some (pre @ run # post)) reg) (runId (backfill run))
           \<longleftrightarrow> truthy (logFilePath (backfill run))) \<and>
        map_option status
          (getRunById (loadPersistedRuns w (Some (pre @ run # post)) reg) (runId (backfill run)))
          = Some running) \<and>
     (\<not> (runMode (backfill run) = background \<and> isProcessAlive w (pid (backfill run))) \<longrightarrow>
        persistedRuns (loadPersistedRuns w (Some (pre @ run # post)) reg) (runId (backfill run)) =
          Some ((backfill run)\<lparr>status := stopped,
                  finishedAt := (case finishedAt (backfill run) of
                                   Some t \<Rightarrow> Some t | None \<Rightarrow> Some (now w)),
                  logs := logs (backfill run) @ [restart_entry w]\<rparr>) \<and>
        persistTimer (loadPersistedRuns w (Some (pre @ run # post)) reg))"
proof -
  let ?rid = "runId (backfill run)"
  let ?b0 = "foldl (\<lambda>b run. load_one w run b) (False, reg) pre"
  let ?b1 = "load_one w run (fst ?b0, snd ?b0)"
  let ?b2 = "foldl (\<lambda>b run. load_one w run b) ?b1 post"
  let ?R = "loadPersistedRuns w (Some (pre @ run # post)) reg"
  have R: "?R = (if fst ?b2 then schedulePersist (snd ?b2) else snd ?b2)"
    by (simp add: loadPersistedRuns_def Let_def)
  have "keeps ?rid (snd ?b1) (snd ?b2)"
    using assms(2) by (rule keeps_load_rest)
  then have k: "keeps ?rid (snd ?b1) ?R"
    unfolding R by simp
  note obs = keeps_observe[OF k]
  show ?thesis
  proof (cases "runMode (backfill run) = background \<and> isProcessAlive w (pid (backfill run))")
    case True
    then show ?thesis
      using load_one_adopt[OF assms(1), of w "fst ?b0" "snd ?b0"] obs by simp
  next
    case False
    note st = load_one_stop[OF assms(1) False, of "fst ?b0" "snd ?b0"]
    then have "fst ?b2" by (intro load_rest_flag) simp
    then have "persistTimer ?R"
      unfolding R by (simp add: schedulePersist_def)
    from False have imp1: "runMode (backfill run) = background \<and> isProcessAlive w (pid (backfill run)) \<longrightarrow>
        adopted ?R ?rid \<and> (tailing ?R ?rid \<longleftrightarrow> truthy (logFilePath (backfill run))) \<and>
        map_option status (getRunById ?R ?rid) = Some running"
      by blast
    have "persistedRuns ?R ?rid = Some ((backfill run)\<lparr>status := stopped,
                  finishedAt := (case finishedAt (backfill run) of
                                   Some t \<Rightarrow> Some t | None \<Rightarrow> Some (now w)),
                  logs := logs (backfill run) @ [restart_entry w]\<rparr>)"
      using st obs by simp
    with imp1 \<open>persistTimer ?R\<close> show ?thesis by blast
  qed
qed

theorem loadPersistedRuns_reconciles_witness:
  "status (backfill (stored_of bg_run)) = running \<and>
   runId (backfill (stored_of bg_run)) \<notin> set (map (\<lambda>r. runId (backfill r)) []) \<and>
   runMode (backfill (stored_of bg_run)) = background \<and>
   isProcessAlive alive_world (pid (backfill (stored_of bg_run))) \<and>
   \<not> isProcessAlive dead_world (pid (backfill (stored_of bg_run))) \<and>
   adopted (loadPersistedRuns alive_world (Some [stored_of bg_run]) empty_registry) ''run-1'' \<and>
   tailing (loadPersistedRuns alive_world (Some [stored_of bg_run]) empty_registry) ''run-1'' \<and>
   map_option status
     (persistedRuns (loadPersistedRuns dead_world (Some [stored_of bg_run]) empty_registry) ''run-1'')
     = Some stopped"
proof -
  have h1: "status (backfill (stored_of bg_run)) = running" by code_simp
  have h2: "runId (backfill (stored_of bg_run)) \<notin> set (map (\<lambda>r. runId (backfill r)) [])" by simp
  have rid: "runId (backfill (stored_of bg_run)) = ''run-1''" by code_simp
  have bg: "runMode (backfill (stored_of bg_run)) = background" by code_simp
  have al: "isProcessAlive alive_world (pid (backfill (stored_of bg_run)))" by code_simp
  have de: "\<not> isProcessAlive dead_world (pid (backfill (stored_of bg_run)))" by code_simp
  have lf: "truthy (logFilePath (backfill (stored_of bg_run)))" by code_simp
  from loadPersistedRuns_reconciles[OF h1 h2, of alive_world "[]" empty_registry]
       loadPersistedRuns_reconciles[OF h1 h2, of dead_world "[]" empty_registry]
       h1 h2 rid bg al de lf
  show ?thesis by simp
qed

section \<open>The pipeline before the Push phase\<close>

lemma pre_push_logp [simp]:
  "pre_push (logp step msg t) = (pre_push t \<and> step \<noteq> ''PUSH'' \<and> step \<noteq> ''PR'' \<and> step \<noteq> ''DONE'')"
  by (auto simp: pre_push_def logp_def)

lemma pre_push_ran [simp]:
  "pre_push (ran c t) = (pre_push t \<and> c \<noteq> git_push \<and> c \<noteq> git_fetch \<and> c \<noteq> git_diff_pr
      \<and> c \<noteq> opencode_pr \<and> c \<noteq> gh_pr_create)"
  by (auto simp: pre_push_def ran_def)

lemma spp_bind:
  assumes "stopped_pre_push r tr"
    and "\<And>a. pre_push (tr a) \<Longrightarrow> stopped_pre_push (f a) tr'"
  shows "stopped_pre_push (bind r f) tr'"
proof (cases r)
  case (Inl e)
  with assms(1) show ?thesis by (simp add: bind_def stopped_pre_push_def)
next
  case (Inr a)
  with assms(1) have "pre_push (tr a)" by (simp add: stopped_pre_push_def)
  then have "stopped_pre_push (f a) tr'" by (rule assms(2))
  with Inr show ?thesis by (simp add: bind_def)
qed

lemma spp_Inr [simp]: "stopped_pre_push (Inr a) tr = pre_push (tr a)"
  by (simp add: stopped_pre_push_def)

lemma spp_Inl [simp]: "stopped_pre_push (Inl (s, t)) tr = pre_push t"
  by (simp add: stopped_pre_push_def)

lemma spp_run_or_return:
  "pre_push t \<Longrightarrow> c \<notin> {git_push, git_fetch, git_diff_pr, opencode_pr, gh_pr_create} \<Longrightarrow>
     stopped_pre_push (run_or_return env c t) (\<lambda>t. t)"
  by (auto simp: run_or_return_def split: shell_result.splits)

lemma spp_plain_or_return:
  "pre_push t \<Longrightarrow> c \<notin> {git_push, git_fetch, git_diff_pr, opencode_pr, gh_pr_create} \<Longrightarrow>
     stopped_pre_push (plain_or_return env c t) (\<lambda>t. t)"
  by (auto simp: plain_or_return_def)

lemma spp_capture_or_return:
  "pre_push t \<Longrightarrow> c \<notin> {git_push, git_fetch, git_diff_pr, opencode_pr, gh_pr_create} \<Longrightarrow>
     stopped_pre_push (capture_or_return env c t) snd"
  by (auto simp: capture_or_return_def Let_def)

lemma spp_clone: "pre_push t \<Longrightarrow> stopped_pre_push (clone_and_prepare_repo env t) (\<lambda>t. t)"
  unfolding clone_and_prepare_repo_def Let_def
  by (intro spp_bind[where tr = "\<lambda>t. t"] spp_run_or_return spp_plain_or_return) auto

lemma spp_post_clone_loop: "pre_push t \<Longrightarrow> stopped_pre_push (post_clone_loop env cmds t) (\<lambda>t. t)"
proof (induction cmds arbitrary: t)
  case Nil
  then show ?case by simp
next
  case (Cons cmd cmds)
  show ?case
  proof (cases "cmd = []")
    case True
    with Cons show ?thesis by simp
  next
    case False
    have "stopped_pre_push (bind (plain_or_return env (post_clone cmd)
                   (logp ''SETUP'' (''Running post-clone command: '' @ cmd) t))
             (post_clone_loop env cmds)) (\<lambda>t. t)"
      using Cons.prems
      by (intro spp_bind[where tr = "\<lambda>t. t"] spp_plain_or_return Cons.IH) auto
    with False show ?thesis by simp
  qed
qed

lemma spp_setup: "pre_push t \<Longrightarrow> stopped_pre_push (run_post_clone_commands env t) (\<lambda>t. t)"
  by (auto simp: run_post_clone_commands_def spp_post_clone_loop split: option.splits)

lemma spp_plan: "pre_push t \<Longrightarrow> stopped_pre_push (plan_phase env t) (\<lambda>t. t)"
  unfolding plan_phase_def Let_def
  by (auto intro!: spp_bind[where tr = snd] spp_capture_or_return)

lemma spp_implement: "pre_push t \<Longrightarrow> stopped_pre_push (implement_phase env t) (\<lambda>t. t)"
  unfolding implement_phase_def
  by (intro spp_bind[where tr = "\<lambda>t. t"] spp_run_or_return) auto

lemma spp_review: "pre_push t \<Longrightarrow> stopped_pre_push (review_phase env t) snd"
  unfolding review_phase_def
  by (intro spp_bind[where tr = snd] spp_capture_or_return) auto

lemma spp_fix: "pre_push t \<Longrightarrow> stopped_pre_push (fix_phase env review_clean t) snd"
  unfolding fix_phase_def
  by (auto intro!: spp_bind[where tr = "\<lambda>t. t"] spp_run_or_return)

lemma spp_before_commit: "stopped_pre_push (before_commit env) snd"
  unfolding before_commit_def
  apply (rule spp_bind[where tr = "\<lambda>t. t"])
   apply (rule spp_clone)
   apply (simp add: pre_push_def)
  apply (rule spp_bind[where tr = "\<lambda>t. t"])
   apply (rule spp_setup)
   apply simp
  apply (rule spp_bind[where tr = "\<lambda>t. t"])
   apply (rule spp_plan)
   apply simp
  apply (rule spp_bind[where tr = "\<lambda>t. t"])
   apply (rule spp_implement)
   apply simp
  apply (rule spp_bind[where tr = snd])
   apply (rule spp_review)
   apply simp
  apply (auto intro: spp_fix)
  done

section \<open>Nothing to commit\<close>

lemma runMode_handleLogEntry_state [simp]: "runMode (handleLogEntry_state w entry st) = runMode st"
  by (simp add: handleLogEntry_state_def detect_phase_def push_log_def read_plan_text_def Let_def
        updatePhaseStatus_def markPhaseCompleted_def split: option.splits)

lemma flush_buffer_keeps:
  "status (fst (flush_buffer w rid buf sr)) = status (fst sr) \<and>
   runMode (fst (flush_buffer w rid buf sr)) = runMode (fst sr)"
  by (simp add: flush_buffer_def split: option.splits)

lemma on_close_failed:
  assumes "status st = running" and "runMode st = foreground" and "code \<noteq> Some 0"
  shows "status (fst (on_close w rid code out err (st, reg))) = run_failed"
proof -
  let ?sr = "flush_buffer w rid err (flush_buffer w rid out (st, reg))"
  have "status (fst ?sr) = running" "runMode (fst ?sr) = foreground"
    using assms by (simp_all add: flush_buffer_keeps)
  then show ?thesis
    unfolding on_close_flush[of w rid code out err "(st, reg)"]
    using assms(3) by (simp add: on_close_def Let_def)
qed

lemma commit_phase_nothing:
  assumes "porcelain env = []"
  shows "commit_phase env t =
     (if plain env git_add
      then Inl (Return1, logp ''COMMIT'' ''No changes after implementation/review. Nothing to commit.''
                  (ran git_add (logp ''COMMIT'' ''Preparing commit'' t)))
      else Inl (Return1, ran git_add (logp ''COMMIT'' ''Preparing commit'' t)))"
  using assms by (simp add: commit_phase_def plain_or_return_def bind_def)

text \<open>
  Claim C6. When \<open>git status --porcelain\<close> prints nothing after staging, the pipeline never
  reaches the Push and PR phases: its trace has no PUSH, PR or DONE line and none of their
  commands, and it does not succeed. When the phases before the commit succeeded and
  staging worked, it returns 1 right after the line "No changes after
  implementation/review. Nothing to commit.", so the script exits with 1; the supervisor
  ends a running foreground run with that exit code as failed.
\<close>

theorem nothing_to_commit:
  assumes "porcelain env = []"
  shows
    "pre_push (trace_of (run_pipeline env)) \<and>
     exit_code (run_pipeline env) \<noteq> 0 \<and>
     (before_commit env = Inr (did_run_fix, t) \<and> plain env git_add \<longrightarrow>
        run_pipeline env =
          Inl (Return1, logp ''COMMIT'' ''No changes after implementation/review. Nothing to commit.''
                 (ran git_add (logp ''COMMIT'' ''Preparing commit'' t))) \<and>
        exit_code (run_pipeline env) = 1 \<and>
        last (plog (trace_of (run_pipeline env))) =
          (''COMMIT'', ''No changes after implementation/review. Nothing to commit.'')) \<and>
     (status st = running \<and> runMode st = foreground \<longrightarrow>
        status (fst (on_close w rid (Some (exit_code (run_pipeline env))) out err (st, reg)))
          = run_failed)"
proof -
  have stopped: "\<exists>s u. run_pipeline env = Inl (s, u) \<and> pre_push u"
  proof (cases "before_commit env")
    case (Inl e)
    obtain s u where e: "e = (s, u)" by (cases e)
    with Inl spp_before_commit[of env] have "pre_push u" by simp
    with Inl e show ?thesis by (simp add: run_pipeline_def bind_def)
  next
    case (Inr p)
    obtain d u where p: "p = (d, u)" by (cases p)
    with Inr spp_before_commit[of env] have "pre_push u" by simp
    with Inr p show ?thesis
      by (simp add: run_pipeline_def bind_def commit_phase_nothing[OF assms])
  qed
  then obtain s u where r: "run_pipeline env = Inl (s, u)" and u: "pre_push u" by blast
  have a: "pre_push (trace_of (run_pipeline env))"
    using r u by (simp add: trace_of_def)
  have b: "exit_code (run_pipeline env) \<noteq> 0"
    using r by (cases s) (simp_all add: exit_code_def)
  have c: "run_pipeline env =
          Inl (Return1, logp ''COMMIT'' ''No changes after implementation/review. Nothing to commit.''
                 (ran git_add (logp ''COMMIT'' ''Preparing commit'' t)))"
    if "before_commit env = Inr (did_run_fix, t)" "plain env git_add"
    using that by (simp add: run_pipeline_def bind_def commit_phase_nothing[OF assms])
  have d: "status (fst (on_close w rid (Some (exit_code (run_pipeline env))) out err (st, reg)))
          = run_failed" if "status st = running" "runMode st = foreground"
    using that b by (intro on_close_failed) simp_all
  from a b c d show ?thesis
    by (auto simp: exit_code_def trace_of_def logp_def)
qed

section \<open>Auto-merge when a run ends\<close>

lemma effects_persistRunState [simp]: "effects (persistRunState st reg) = effects reg"
  by (simp add: persistRunState_def schedulePersist_def)

lemma effects_setRun [simp]: "effects (setRun rid st reg) = effects reg"
  by (simp add: setRun_def split: option.splits)

lemma effects_setBuffer [simp]: "effects (setBuffer rid buf reg) = effects reg"
  by (simp add: setBuffer_def split: option.splits)

lemma quiet_refl [simp]: "quiet_since r reg reg"
  by (simp add: quiet_since_def)

lemma quiet_same: "effects reg'' = effects reg' \<Longrightarrow> quiet_since r reg reg' \<Longrightarrow> quiet_since r reg reg''"
  by (simp add: quiet_since_def)

lemma quiet_emit:
  "e \<noteq> call_maybeAutoMergeRun r \<Longrightarrow> quiet_since r reg reg' \<Longrightarrow> quiet_since r reg (emit e reg')"
  by (auto simp: quiet_since_def)

lemma quiet_handleLogEntry:
  "quiet_since r reg (snd sr) \<Longrightarrow> quiet_since r reg (snd (handleLogEntry w rid entry sr))"
  by (auto simp: handleLogEntry_def Let_def quiet_since_def)

lemma quiet_flush_buffer:
  "quiet_since r reg (snd sr) \<Longrightarrow> quiet_since r reg (snd (flush_buffer w rid buf sr))"
  by (simp add: flush_buffer_def quiet_handleLogEntry split: option.splits)

lemma quiet_poll_line:
  "quiet_since r reg (snd sr) \<Longrightarrow> quiet_since r reg (snd (poll_line w rid line sr))"
  by (simp add: poll_line_def Let_def quiet_handleLogEntry split: option.splits)

lemma quiet_poll_lines:
  "quiet_since r reg (snd sr) \<Longrightarrow>
     quiet_since r reg (snd (foldl (\<lambda>s line. poll_line w rid line s) sr ls))"
  by (induction ls arbitrary: sr) (simp_all add: quiet_poll_line)

lemma quiet_poll_chunk:
  "quiet_since r reg (snd sr) \<Longrightarrow> quiet_since r reg (snd (snd (poll_chunk w rid current chunk sr)))"
  by (simp add: poll_chunk_def Let_def quiet_poll_lines quiet_same[of "setBuffer rid buf (snd sr)" "snd sr" for buf])

lemma quiet_poll_tail:
  "quiet_since r reg (snd sr) \<Longrightarrow> quiet_since r reg (snd (poll_tail w rid buf sr))"
  by (auto simp: poll_tail_def Let_def split: option.splits
           intro: quiet_same[OF effects_setBuffer] quiet_handleLogEntry)

lemma quiet_stopPolling:
  "quiet_since r reg reg' \<Longrightarrow> quiet_since r reg (stopPolling rid reg')"
  by (auto simp: stopPolling_def quiet_since_def emit_def split: option.splits)

lemma started_after_quiet:
  assumes "quiet_since r reg reg2" and "effects reg3 = effects reg2 @ rest"
  shows "auto_merge_started r reg reg3 \<longleftrightarrow> call_maybeAutoMergeRun r \<in> set rest"
  using assms by (auto simp: quiet_since_def auto_merge_started_def new_effects_def)

lemma adopted_iff: "adopted reg rid \<longleftrightarrow> (\<exists>a. activeRuns reg rid = Some a)"
  by (simp add: adopted_def split: option.splits)

lemma adopted_flush_buffer [simp]:
  "adopted (snd (flush_buffer w r buf sr)) rid = adopted (snd sr) rid"
  by (simp add: flush_buffer_def split: option.splits)

lemma adopted_emit [simp]: "adopted (emit e reg) rid = adopted reg rid"
  by (simp add: adopted_def)

lemma adopted_persistRunState [simp]: "adopted (persistRunState st reg) rid = adopted reg rid"
  by (simp add: adopted_def)

lemma adopted_stopPolling [simp]: "adopted (stopPolling r reg) rid = adopted reg rid"
  by (auto simp: stopPolling_def adopted_def emit_def split: option.splits)

lemma adopted_poll_tail [simp]: "adopted (snd (poll_tail w r buf sr)) rid = adopted (snd sr) rid"
  by (simp add: poll_tail_def Let_def split: option.splits)

lemma adopted_finalizeBackgroundRun [simp]:
  "adopted (snd (finalizeBackgroundRun w r sr)) rid = adopted (snd sr) rid"
  by (simp add: finalizeBackgroundRun_def Let_def)

lemma prUrl_retire [simp]:
  "prUrl (st\<lparr>status := s, phases := p\<rparr>) = prUrl st"
  by simp

lemma autoMerge_handleLogEntry_state [simp]:
  "autoMerge (handleLogEntry_state w entry st) = autoMerge st"
  by (simp add: handleLogEntry_state_def detect_phase_def push_log_def read_plan_text_def Let_def
        updatePhaseStatus_def markPhaseCompleted_def split: option.splits)

lemma autoMerge_flush_buffer [simp]:
  "autoMerge (fst (flush_buffer w rid buf sr)) = autoMerge (fst sr)"
  by (simp add: flush_buffer_def handleLogEntry_def Let_def split: option.splits)

text \<open>The close handler on a running foreground run.\<close>

lemma on_close_foreground:
  assumes run: "status st = running" and fg: "runMode st = foreground"
  shows "(status (fst (on_close w rid code out err (st, reg))) = run_completed \<longleftrightarrow> code = Some 0) \<and>
         autoMerge (fst (on_close w rid code out err (st, reg))) = autoMerge st \<and>
         adopted (snd (on_close w rid code out err (st, reg))) rid = adopted reg rid \<and>
         (auto_merge_started rid reg (snd (on_close w rid code out err (st, reg))) \<longleftrightarrow>
            status (fst (on_close w rid code out err (st, reg))) = run_completed \<and>
            truthy (prUrl (fst (on_close w rid code out err (st, reg)))))"
proof -
  let ?sr = "flush_buffer w rid err (flush_buffer w rid out (st, reg))"
  let ?st = "(fst ?sr)\<lparr>finishedAt := Some (now w)\<rparr>"
  have k: "status (fst ?sr) = running" "runMode (fst ?sr) = foreground"
    using run fg by (simp_all add: flush_buffer_keeps)
  have q: "quiet_since rid reg (snd ?sr)"
    by (intro quiet_flush_buffer) simp
  have ad: "adopted (snd ?sr) rid = adopted reg rid" by simp
  show ?thesis
  proof (cases "code = Some 0")
    case True
    let ?st1 = "?st\<lparr>status := run_completed,
                     phases := retire_active (\<lambda>p. False) completed (phases ?st)\<rparr>"
    let ?note = "showNotification (if truthy (prUrl ?st) then ''PR ready: '' @ the (prUrl ?st)
                                   else ''Run completed successfully'')"
    let ?reg4 = "announce_done rid ?st1 (emit ?note (snd ?sr))"
    let ?reg1 = "if truthy (prUrl ?st1) then emit (call_maybeAutoMergeRun rid) ?reg4 else ?reg4"
    have oc: "on_close w rid code out err (st, reg) = (?st1, ?reg1)"
      using True k by (simp add: on_close_def Let_def)
    have e: "effects ?reg1 = effects (snd ?sr) @
        ([?note, RUN_STATUS rid ?st1, RUN_DONE rid (prUrl ?st1) (status ?st1) (finishedAt ?st1)]
          @ (if truthy (prUrl ?st1) then [call_maybeAutoMergeRun rid] else []))"
      by (simp add: announce_done_def)
    have "auto_merge_started rid reg ?reg1 \<longleftrightarrow> truthy (prUrl ?st1)"
      unfolding started_after_quiet[OF q e] by simp
    moreover have "adopted ?reg1 rid = adopted reg rid"
      using ad by (simp add: announce_done_def)
    ultimately show ?thesis unfolding oc using True by simp
  next
    case False
    let ?st1 = "?st\<lparr>status := run_failed,
                     phases := retire_active (\<lambda>p. False) failed (phases ?st)\<rparr>"
    let ?reg1 = "announce_done rid ?st1 (emit (showNotification ''Run failed'') (snd ?sr))"
    have oc: "on_close w rid code out err (st, reg) = (?st1, ?reg1)"
      using False k by (simp add: on_close_def Let_def)
    have e: "effects ?reg1 = effects (snd ?sr) @
        [showNotification ''Run failed'', RUN_STATUS rid ?st1,
         RUN_DONE rid (prUrl ?st1) (status ?st1) (finishedAt ?st1)]"
      by (simp add: announce_done_def)
    have "\<not> auto_merge_started rid reg ?reg1"
      unfolding started_after_quiet[OF q e] by simp
    moreover have "adopted ?reg1 rid = adopted reg rid"
      using ad by (simp add: announce_done_def)
    ultimately show ?thesis unfolding oc using False by simp
  qed
qed

lemma autoMerge_poll_line [simp]: "autoMerge (fst (poll_line w rid line sr)) = autoMerge (fst sr)"
  by (simp add: poll_line_def handleLogEntry_def Let_def split: option.splits)

lemma autoMerge_poll_lines [simp]:
  "autoMerge (fst (foldl (\<lambda>s line. poll_line w rid line s) sr ls)) = autoMerge (fst sr)"
  by (induction ls arbitrary: sr) simp_all

lemma autoMerge_poll_chunk [simp]:
  "autoMerge (fst (snd (poll_chunk w rid current chunk sr))) = autoMerge (fst sr)"
  by (simp add: poll_chunk_def Let_def)

lemma autoMerge_poll_tail [simp]: "autoMerge (fst (poll_tail w rid buf sr)) = autoMerge (fst sr)"
  by (simp add: poll_tail_def handleLogEntry_def Let_def split: option.splits)

lemma autoMerge_finalizeBackgroundRun [simp]:
  "autoMerge (fst (finalizeBackgroundRun w rid sr)) = autoMerge (fst sr)"
  by (simp add: finalizeBackgroundRun_def Let_def)

lemma started_setRun [simp]:
  "auto_merge_started rid reg (setRun r st reg') = auto_merge_started rid reg reg'"
  by (simp add: auto_merge_started_def new_effects_def)

text \<open>Finalizing a running background run.\<close>

lemma finalize_running_starts:
  assumes run: "status st = running" and q: "quiet_since rid reg0 reg"
  shows "adopted (snd (finalizeBackgroundRun w rid (st, reg))) r = adopted reg r"
    and "auto_merge_started rid reg0 (snd (finalizeBackgroundRun w rid (st, reg))) \<longleftrightarrow>
           status (fst (finalizeBackgroundRun w rid (st, reg))) = run_completed \<and>
           truthy (prUrl (fst (finalizeBackgroundRun w rid (st, reg))))"
proof -
  show "adopted (snd (finalizeBackgroundRun w rid (st, reg))) r = adopted reg r" by simp
  let ?st1 = "st\<lparr>finishedAt := Some (now w)\<rparr>"
  show "auto_merge_started rid reg0 (snd (finalizeBackgroundRun w rid (st, reg))) \<longleftrightarrow>
           status (fst (finalizeBackgroundRun w rid (st, reg))) = run_completed \<and>
           truthy (prUrl (fst (finalizeBackgroundRun w rid (st, reg))))"
  proof (cases "inferCompletedFromLogs ?st1")
    case True
    let ?st2 = "?st1\<lparr>status := run_completed,
                      phases := retire_active (\<lambda>p. False) completed (phases ?st1)\<rparr>"
    let ?reg3 = "persistRunState ?st2
                   (emit (RUN_DONE rid (prUrl ?st2) (status ?st2) (finishedAt ?st2))
                      (emit (RUN_STATUS rid ?st2) reg))"
    let ?reg4 = "if truthy (prUrl ?st2) then emit (call_maybeAutoMergeRun rid) ?reg3 else ?reg3"
    have f: "finalizeBackgroundRun w rid (st, reg) = (?st2, ?reg4)"
      using run True by (simp add: finalizeBackgroundRun_def Let_def)
    have e: "effects ?reg4 = effects reg @
        ([RUN_STATUS rid ?st2, RUN_DONE rid (prUrl ?st2) (status ?st2) (finishedAt ?st2)]
          @ (if truthy (prUrl ?st2) then [call_maybeAutoMergeRun rid] else []))"
      by simp
    have "auto_merge_started rid reg0 ?reg4 \<longleftrightarrow> truthy (prUrl ?st2)"
      unfolding started_after_quiet[OF q e] by simp
    then show ?thesis unfolding f by simp
  next
    case False
    let ?st2 = "?st1\<lparr>status := run_failed,
                      phases := retire_active (\<lambda>p. False) failed (phases ?st1)\<rparr>"
    let ?reg3 = "persistRunState ?st2
                   (emit (RUN_DONE rid (prUrl ?st2) (status ?st2) (finishedAt ?st2))
                      (emit (RUN_STATUS rid ?st2) reg))"
    have f: "finalizeBackgroundRun w rid (st, reg) = (?st2, ?reg3)"
      using run False by (simp add: finalizeBackgroundRun_def Let_def)
    have e: "effects ?reg3 = effects reg @
        [RUN_STATUS rid ?st2, RUN_DONE rid (prUrl ?st2) (status ?st2) (finishedAt ?st2)]"
      by simp
    have "\<not> auto_merge_started rid reg0 ?reg3"
      unfolding started_after_quiet[OF q e] by simp
    then show ?thesis unfolding f by simp
  qed
qed

text \<open>A tick of the poller that finds the process of a running run gone.\<close>

lemma poll_tick_dead:
  assumes cur: "activeRuns reg rid = Some a"
    and run: "status (state a) = running"
    and rd: "(case logFilePath (state a) of None \<Rightarrow> Some ([], logFileOffset (state a))
              | Some path \<Rightarrow> readNewLogChunk w path (logFileOffset (state a))) = Some (chunk, nextOffset)"
    and dead: "\<not> isProcessAlive w (pid (state a))"
  shows "\<exists>st1. getRunById (poll_tick w rid reg) rid = Some st1 \<and>
           autoMerge st1 = autoMerge (state a) \<and>
           logs st1 = retained (logs (state a)) (tick_entries w (logLineBuffer a) chunk) \<and>
           (status st1 = run_completed \<longleftrightarrow> (\<exists>e \<in> set (logs st1). done_with_duration e)) \<and>
           (auto_merge_started rid reg (poll_tick w rid reg) \<longleftrightarrow>
              status st1 = run_completed \<and> truthy (prUrl st1))"
proof -
  let ?st = "state a"
  let ?bs = "poll_chunk w rid a chunk (?st\<lparr>logFileOffset := nextOffset\<rparr>, reg)"
  let ?sr2 = "poll_tail w rid (fst ?bs) (snd ?bs)"
  let ?reg2 = "stopPolling rid (snd ?sr2)"
  let ?fin = "finalizeBackgroundRun w rid (fst ?sr2, ?reg2)"
  have k1: "status (fst (snd ?bs)) = running" "pid (fst (snd ?bs)) = pid ?st"
    using run by (simp_all add: poll_chunk_keeps)
  have k2: "status (fst ?sr2) = running"
    using k1 by (simp add: poll_tail_keeps)
  have k3: "logs (fst ?sr2) = retained (logs ?st) (tick_entries w (logLineBuffer a) chunk)"
    using logs_poll_dead_state[of w rid a chunk "?st\<lparr>logFileOffset := nextOffset\<rparr>" reg]
    by simp
  have k4: "autoMerge (fst ?sr2) = autoMerge ?st" by simp
  have p: "poll w rid (?st, reg) = ?fin"
    unfolding poll_def using cur run rd dead k1(2)
    by (simp add: Let_def)
  have q: "quiet_since rid reg ?reg2"
    by (intro quiet_stopPolling quiet_poll_tail quiet_poll_chunk) simp
  have ad0: "adopted reg rid" using cur by (simp add: adopted_iff)
  have ad: "adopted ?reg2 rid"
    using ad0 by (simp add: watch_poll_chunk)
  note fs = finalize_running_starts[OF k2 q, of w]
  have ad2: "adopted (snd ?fin) rid" using fs(1)[of rid] ad by simp
  have pt: "poll_tick w rid reg = setRun rid (fst ?fin) (snd ?fin)"
    using cur by (simp add: poll_tick_def p Let_def)
  have g: "getRunById (poll_tick w rid reg) rid = Some (fst ?fin)"
    unfolding pt using watch_setRun[OF ad2] by simp
  have s: "status (fst ?fin) = run_completed \<longleftrightarrow> (\<exists>e \<in> set (logs (fst ?fin)). done_with_duration e)"
    using finalize_running(1,3)[OF k2, of w rid ?reg2] by simp
  have l: "logs (fst ?fin) = retained (logs ?st) (tick_entries w (logLineBuffer a) chunk)"
    using finalize_running(3)[OF k2, of w rid ?reg2] k3 by simp
  have am: "autoMerge (fst ?fin) = autoMerge ?st" using k4 by simp
  have st: "auto_merge_started rid reg (poll_tick w rid reg) \<longleftrightarrow>
              status (fst ?fin) = run_completed \<and> truthy (prUrl (fst ?fin))"
    unfolding pt using fs(2) by simp
  show ?thesis
  proof (intro exI[of _ "fst ?fin"] conjI)
    show "getRunById (poll_tick w rid reg) rid = Some (fst ?fin)" by (rule g)
    show "autoMerge (fst ?fin) = autoMerge (state a)" by (rule am)
    show "logs (fst ?fin) = retained (logs (state a)) (tick_entries w (logLineBuffer a) chunk)"
      by (rule l)
    show "status (fst ?fin) = run_completed \<longleftrightarrow> (\<exists>e \<in> set (logs (fst ?fin)). done_with_duration e)"
      by (rule s)
    show "auto_merge_started rid reg (poll_tick w rid reg) \<longleftrightarrow>
              status (fst ?fin) = run_completed \<and> truthy (prUrl (fst ?fin))" by (rule st)
  qed
qed

lemma child_closed_foreground:
  assumes cur: "activeRuns reg rid = Some a"
    and run: "status (state a) = running" and fg: "runMode (state a) = foreground"
  shows "\<exists>st1. getRunById (child_closed w rid code out err reg) rid = Some st1 \<and>
           autoMerge st1 = autoMerge (state a) \<and>
           (status st1 = run_completed \<longleftrightarrow> code = Some 0) \<and>
           (auto_merge_started rid reg (child_closed w rid code out err reg) \<longleftrightarrow>
              status st1 = run_completed \<and> truthy (prUrl st1))"
proof -
  define st1 where "st1 = fst (on_close w rid code out err (state a, reg))"
  define reg1 where "reg1 = snd (on_close w rid code out err (state a, reg))"
  have oc: "on_close w rid code out err (state a, reg) = (st1, reg1)"
    by (simp add: st1_def reg1_def)
  note f = on_close_foreground[OF run fg, of w rid code out err reg, folded st1_def reg1_def]
  have s: "status st1 = run_completed \<longleftrightarrow> code = Some 0"
    and am: "autoMerge st1 = autoMerge (state a)"
    and ad: "adopted reg1 rid = adopted reg rid"
    and st: "auto_merge_started rid reg reg1 \<longleftrightarrow> status st1 = run_completed \<and> truthy (prUrl st1)"
    using f by simp_all
  have ad1: "adopted reg1 rid" using ad cur by (simp add: adopted_iff)
  have cc: "child_closed w rid code out err reg = setRun rid st1 reg1"
    using cur oc by (simp add: child_closed_def Let_def)
  have g: "getRunById (child_closed w rid code out err reg) rid = Some st1"
    unfolding cc using watch_setRun[OF ad1] by simp
  have st': "auto_merge_started rid reg (child_closed w rid code out err reg) \<longleftrightarrow>
              status st1 = run_completed \<and> truthy (prUrl st1)"
    unfolding cc using st by simp
  show ?thesis
  proof (intro exI[of _ st1] conjI)
    show "getRunById (child_closed w rid code out err reg) rid = Some st1" by (rule g)
    show "autoMerge st1 = autoMerge (state a)" by (rule am)
    show "status st1 = run_completed \<longleftrightarrow> code = Some 0" by (rule s)
    show "auto_merge_started rid reg (child_closed w rid code out err reg) \<longleftrightarrow>
              status st1 = run_completed \<and> truthy (prUrl st1)" by (rule st')
  qed
qed

lemma merge_requested_same [simp]: "\<not> merge_requested reg reg"
  by (simp add: merge_requested_def new_effects_def)

text \<open>What the started call does on the registry the handler leaves.\<close>

lemma then_auto_merge_rule:
  assumes g: "getRunById reg1 rid = Some st1"
    and st: "auto_merge_started rid reg reg1 \<longleftrightarrow> status st1 = run_completed \<and> truthy (prUrl st1)"
  shows "(merge_requested reg1 (then_auto_merge view1 m view2 rid reg reg1) \<longleftrightarrow>
            status st1 = run_completed \<and> truthy (prUrl st1) \<and> autoMerge st1 \<and>
            (merge_status (snd (refreshRunPrStatus view1 rid reg1)) rid = Some pr_ready \<or>
             merge_status (snd (refreshRunPrStatus view1 rid reg1)) rid = Some pr_checking))"
    and "status st1 = run_completed \<and> truthy (prUrl st1) \<and> autoMerge st1 \<and>
         merge_status (snd (refreshRunPrStatus view1 rid reg1)) rid = Some pr_conflict \<longrightarrow>
           merge_message (then_auto_merge view1 m view2 rid reg reg1) rid =
             Some ''Auto-merge skipped because this PR has merge conflicts. Use Resolve & Merge.''"
    and "truthy (prUrl st1) \<longrightarrow>
           merge_status (snd (refreshRunPrStatus view1 rid reg1)) rid \<in>
             {Some pr_ready, Some pr_checking, Some pr_conflict, Some pr_merged, Some pr_failed}"
proof -
  show "truthy (prUrl st1) \<longrightarrow>
           merge_status (snd (refreshRunPrStatus view1 rid reg1)) rid \<in>
             {Some pr_ready, Some pr_checking, Some pr_conflict, Some pr_merged, Some pr_failed}"
  proof
    assume t: "truthy (prUrl st1)"
    have "merge_status (snd (refreshRunPrStatus view1 rid reg1)) rid
            = Some (prMergeStatus (refreshed view1 st1))"
      by (simp add: merge_status_def refresh_found(1)[OF g t])
    with merge_status_refreshed_cases[of view1 st1]
    show "merge_status (snd (refreshRunPrStatus view1 rid reg1)) rid \<in>
             {Some pr_ready, Some pr_checking, Some pr_conflict, Some pr_merged, Some pr_failed}"
      by auto
  qed
  show "(merge_requested reg1 (then_auto_merge view1 m view2 rid reg reg1) \<longleftrightarrow>
            status st1 = run_completed \<and> truthy (prUrl st1) \<and> autoMerge st1 \<and>
            (merge_status (snd (refreshRunPrStatus view1 rid reg1)) rid = Some pr_ready \<or>
             merge_status (snd (refreshRunPrStatus view1 rid reg1)) rid = Some pr_checking))"
  proof (cases "status st1 = run_completed \<and> truthy (prUrl st1) \<and> autoMerge st1")
    case True
    then have t: "then_auto_merge view1 m view2 rid reg reg1 = maybeAutoMergeRun view1 m view2 rid reg1"
      using st by (simp add: then_auto_merge_def)
    from True have a: "autoMerge st1" and b: "truthy (prUrl st1)" and c: "status st1 = run_completed"
      by simp_all
    from maybeAutoMergeRun_merge_cases[OF g a b c, of view1 m view2] True show ?thesis
      unfolding t by blast
  next
    case False
    then have "then_auto_merge view1 m view2 rid reg reg1 = reg1"
      using st g by (auto simp: then_auto_merge_def maybeAutoMergeRun_def)
    with False show ?thesis by auto
  qed
  show "status st1 = run_completed \<and> truthy (prUrl st1) \<and> autoMerge st1 \<and>
         merge_status (snd (refreshRunPrStatus view1 rid reg1)) rid = Some pr_conflict \<longrightarrow>
           merge_message (then_auto_merge view1 m view2 rid reg reg1) rid =
             Some ''Auto-merge skipped because this PR has merge conflicts. Use Resolve & Merge.''"
  proof
    assume h: "status st1 = run_completed \<and> truthy (prUrl st1) \<and> autoMerge st1 \<and>
         merge_status (snd (refreshRunPrStatus view1 rid reg1)) rid = Some pr_conflict"
    then have t: "then_auto_merge view1 m view2 rid reg reg1 = maybeAutoMergeRun view1 m view2 rid reg1"
      using st by (simp add: then_auto_merge_def)
    from h have a: "autoMerge st1" and b: "truthy (prUrl st1)" and c: "status st1 = run_completed"
      by simp_all
    from maybeAutoMergeRun_merge_cases[OF g a b c, of view1 m view2] h
    show "merge_message (then_auto_merge view1 m view2 rid reg reg1) rid =
             Some ''Auto-merge skipped because this PR has merge conflicts. Use Resolve & Merge.''"
      unfolding t by blast
  qed
qed

text \<open>
  Claim C9, as the code has it. Let a run be registered and running. When the child of a
  foreground run ends, the run is completed exactly when the exit code is 0; when a tick of
  the poller finds the process of a run gone, the run is completed exactly when its log,
  with the entries of the lines just read, has a DONE entry whose message contains
  "Total duration:". In both cases maybeAutoMergeRun is started exactly when the run is
  completed and has the URL of a pull request, and the merge is then requested exactly when,
  in addition, auto-merge was requested for the run and the refreshed merge status is ready
  or checking. The refreshed status is one of ready, checking, conflict, merged and failed:
  no merge is requested when the refresh failed, when the pull request is already merged,
  and when the status is conflict; on a conflict the message that points to Resolve & Merge
  is recorded.
\<close>

theorem auto_merge_after_completion:
  assumes "activeRuns reg rid = Some a" and "status (state a) = running"
  shows
    "(runMode (state a) = foreground \<longrightarrow>
        (let reg1 = child_closed w rid code out err reg;
             reg2 = then_auto_merge view1 merge_answer view2 rid reg reg1;
             refreshed_status = merge_status (snd (refreshRunPrStatus view1 rid reg1)) rid
         in \<exists>st1. getRunById reg1 rid = Some st1 \<and>
              autoMerge st1 = autoMerge (state a) \<and>
              (status st1 = run_completed \<longleftrightarrow> code = Some 0) \<and>
              (auto_merge_started rid reg reg1 \<longleftrightarrow>
                 status st1 = run_completed \<and> truthy (prUrl st1)) \<and>
              (merge_requested reg1 reg2 \<longleftrightarrow>
                 status st1 = run_completed \<and> truthy (prUrl st1) \<and> autoMerge st1 \<and>
                 (refreshed_status = Some pr_ready \<or> refreshed_status = Some pr_checking)) \<and>
              (status st1 = run_completed \<and> truthy (prUrl st1) \<and> autoMerge st1 \<and>
               refreshed_status = Some pr_conflict \<longrightarrow>
                 merge_message reg2 rid =
                   Some ''Auto-merge skipped because this PR has merge conflicts. Use Resolve & Merge.'') \<and>
              (truthy (prUrl st1) \<longrightarrow>
                 refreshed_status \<in>
                   {Some pr_ready, Some pr_checking, Some pr_conflict, Some pr_merged, Some pr_failed}))) \<and>
     (\<not> isProcessAlive w (pid (state a)) \<and>
      (case logFilePath (state a) of None \<Rightarrow> Some ([], logFileOffset (state a))
       | Some path \<Rightarrow> readNewLogChunk w path (logFileOffset (state a))) = Some (chunk, nextOffset) \<longrightarrow>
        (let reg1 = poll_tick w rid reg;
             reg2 = then_auto_merge view1 merge_answer view2 rid reg reg1;
             refreshed_status = merge_status (snd (refreshRunPrStatus view1 rid reg1)) rid
         in \<exists>st1. getRunById reg1 rid = Some st1 \<and>
              autoMerge st1 = autoMerge (state a) \<and>
              logs st1 = retained (logs (state a)) (tick_entries w (logLineBuffer a) chunk) \<and>
              (status st1 = run_completed \<longleftrightarrow>
                 (\<exists>e \<in> set (logs st1). toUpperCase (phase e) = ''DONE'' \<and>
                    (\<exists>x y. message e = x @ ''Total duration:'' @ y))) \<and>
              (auto_merge_started rid reg reg1 \<longleftrightarrow>
                 status st1 = run_completed \<and> truthy (prUrl st1)) \<and>
              (merge_requested reg1 reg2 \<longleftrightarrow>
                 status st1 = run_completed \<and> truthy (prUrl st1) \<and> autoMerge st1 \<and>
                 (refreshed_status = Some pr_ready \<or> refreshed_status = Some pr_checking)) \<and>
              (status st1 = run_completed \<and> truthy (prUrl st1) \<and> autoMerge st1 \<and>
               refreshed_status = Some pr_conflict \<longrightarrow>
                 merge_message reg2 rid =
                   Some ''Auto-merge skipped because this PR has merge conflicts. Use Resolve & Merge.'') \<and>
              (truthy (prUrl st1) \<longrightarrow>
                 refreshed_status \<in>
                   {Some pr_ready, Some pr_checking, Some pr_conflict, Some pr_merged, Some pr_failed})))"
proof (intro conjI impI)
  assume fg: "runMode (state a) = foreground"
  from child_closed_foreground[OF assms fg, of w code out err]
  obtain st1 where g: "getRunById (child_closed w rid code out err reg) rid = Some st1"
    and am: "autoMerge st1 = autoMerge (state a)"
    and s: "status st1 = run_completed \<longleftrightarrow> code = Some 0"
    and st: "auto_merge_started rid reg (child_closed w rid code out err reg) \<longleftrightarrow>
               status st1 = run_completed \<and> truthy (prUrl st1)"
    by (elim exE conjE)
  note r = then_auto_merge_rule(1,2)[OF g st, of view1 merge_answer view2]
    then_auto_merge_rule(3)[OF g st, of view1]
  show "let reg1 = child_closed w rid code out err reg;
             reg2 = then_auto_merge view1 merge_answer view2 rid reg reg1;
             refreshed_status = merge_status (snd (refreshRunPrStatus view1 rid reg1)) rid
         in \<exists>st1. getRunById reg1 rid = Some st1 \<and>
              autoMerge st1 = autoMerge (state a) \<and>
              (status st1 = run_completed \<longleftrightarrow> code = Some 0) \<and>
              (auto_merge_started rid reg reg1 \<longleftrightarrow>
                 status st1 = run_completed \<and> truthy (prUrl st1)) \<and>
              (merge_requested reg1 reg2 \<longleftrightarrow>
                 status st1 = run_completed \<and> truthy (prUrl st1) \<and> autoMerge st1 \<and>
                 (refreshed_status = Some pr_ready \<or> refreshed_status = Some pr_checking)) \<and>
              (status st1 = run_completed \<and> truthy (prUrl st1) \<and> autoMerge st1 \<and>
               refreshed_status = Some pr_conflict \<longrightarrow>
                 merge_message reg2 rid =
                   Some ''Auto-merge skipped because this PR has merge conflicts. Use Resolve & Merge.'') \<and>
              (truthy (prUrl st1) \<longrightarrow>
                 refreshed_status \<in>
                   {Some pr_ready, Some pr_checking, Some pr_conflict, Some pr_merged, Some pr_failed})"
    unfolding Let_def
    by (intro exI[of _ st1] conjI g am s st r)
next
  assume h: "\<not> isProcessAlive w (pid (state a)) \<and>
      (case logFilePath (state a) of None \<Rightarrow> Some ([], logFileOffset (state a))
       | Some path \<Rightarrow> readNewLogChunk w path (logFileOffset (state a))) = Some (chunk, nextOffset)"
  then have dead: "\<not> isProcessAlive w (pid (state a))"
    and rd: "(case logFilePath (state a) of None \<Rightarrow> Some ([], logFileOffset (state a))
       | Some path \<Rightarrow> readNewLogChunk w path (logFileOffset (state a))) = Some (chunk, nextOffset)"
    by simp_all
  from poll_tick_dead[OF assms rd dead]
  obtain st1 where g: "getRunById (poll_tick w rid reg) rid = Some st1"
    and am: "autoMerge st1 = autoMerge (state a)"
    and l: "logs st1 = retained (logs (state a)) (tick_entries w (logLineBuffer a) chunk)"
    and s0: "status st1 = run_completed \<longleftrightarrow> (\<exists>e \<in> set (logs st1). done_with_duration e)"
    and st: "auto_merge_started rid reg (poll_tick w rid reg) \<longleftrightarrow>
               status st1 = run_completed \<and> truthy (prUrl st1)"
    by (elim exE conjE)
  have s: "status st1 = run_completed \<longleftrightarrow>
             (\<exists>e \<in> set (logs st1). toUpperCase (phase e) = ''DONE'' \<and>
                (\<exists>x y. message e = x @ ''Total duration:'' @ y))"
    using s0 by (simp add: done_with_duration_def)
  note r = then_auto_merge_rule(1,2)[OF g st, of view1 merge_answer view2]
    then_auto_merge_rule(3)[OF g st, of view1]
  show "let reg1 = poll_tick w rid reg;
             reg2 = then_auto_merge view1 merge_answer view2 rid reg reg1;
             refreshed_status = merge_status (snd (refreshRunPrStatus view1 rid reg1)) rid
         in \<exists>st1. getRunById reg1 rid = Some st1 \<and>
              autoMerge st1 = autoMerge (state a) \<and>
              logs st1 = retained (logs (state a)) (tick_entries w (logLineBuffer a) chunk) \<and>
              (status st1 = run_completed \<longleftrightarrow>
                 (\<exists>e \<in> set (logs st1). toUpperCase (phase e) = ''DONE'' \<and>
                    (\<exists>x y. message e = x @ ''Total duration:'' @ y))) \<and>
              (auto_merge_started rid reg reg1 \<longleftrightarrow>
                 status st1 = run_completed \<and> truthy (prUrl st1)) \<and>
              (merge_requested reg1 reg2 \<longleftrightarrow>
                 status st1 = run_completed \<and> truthy (prUrl st1) \<and> autoMerge st1 \<and>
                 (refreshed_status = Some pr_ready \<or> refreshed_status = Some pr_checking)) \<and>
              (status st1 = run_completed \<and> truthy (prUrl st1) \<and> autoMerge st1 \<and>
               refreshed_status = Some pr_conflict \<longrightarrow>
                 merge_message reg2 rid =
                   Some ''Auto-merge skipped because this PR has merge conflicts. Use Resolve & Merge.'') \<and>
              (truthy (prUrl st1) \<longrightarrow>
                 refreshed_status \<in>
                   {Some pr_ready, Some pr_checking, Some pr_conflict, Some pr_merged, Some pr_failed})"
    unfolding Let_def
    by (intro exI[of _ st1] conjI g am l s st r)
qed

theorem auto_merge_after_completion_witness:
  "activeRuns (register open_pr_run empty_registry) ''run-1''
     = Some \<lparr>state = open_pr_run, process = True, logPoller = False, logLineBuffer = []\<rparr> \<and>
   status open_pr_run = running \<and> runMode open_pr_run = foreground \<and>
   auto_merge_started ''run-1'' (register open_pr_run empty_registry)
     (child_closed dead_world ''run-1'' (Some 0) [] [] (register open_pr_run empty_registry)) \<and>
   merge_requested
     (child_closed dead_world ''run-1'' (Some 0) [] [] (register open_pr_run empty_registry))
     (then_auto_merge (Inr mergeable_view) None (Inr mergeable_view) ''run-1''
        (register open_pr_run empty_registry)
        (child_closed dead_world ''run-1'' (Some 0) [] [] (register open_pr_run empty_registry))) \<and>
   \<not> merge_requested
     (child_closed dead_world ''run-1'' (Some 0) [] [] (register open_pr_run empty_registry))
     (then_auto_merge (Inr conflicting_view) None (Inr mergeable_view) ''run-1''
        (register open_pr_run empty_registry)
        (child_closed dead_world ''run-1'' (Some 0) [] [] (register open_pr_run empty_registry))) \<and>
   activeRuns (register open_pr_bg_run empty_registry) ''run-1''
     = Some \<lparr>state = open_pr_bg_run, process = True, logPoller = False, logLineBuffer = []\<rparr> \<and>
   status open_pr_bg_run = running \<and>
   \<not> isProcessAlive dead_world (pid open_pr_bg_run) \<and>
   merge_requested
     (poll_tick dead_world ''run-1'' (register open_pr_bg_run empty_registry))
     (then_auto_merge (Inr mergeable_view) None (Inr mergeable_view) ''run-1''
        (register open_pr_bg_run empty_registry)
        (poll_tick dead_world ''run-1'' (register open_pr_bg_run empty_registry)))"
proof -
  let ?R = "register open_pr_run empty_registry"
  let ?a = "\<lparr>state = open_pr_run, process = True, logPoller = False, logLineBuffer = []\<rparr>"
  let ?R1 = "child_closed dead_world ''run-1'' (Some 0) [] [] ?R"
  let ?B = "register open_pr_bg_run empty_registry"
  let ?b = "\<lparr>state = open_pr_bg_run, process = True, logPoller = False, logLineBuffer = []\<rparr>"
  let ?B1 = "poll_tick dead_world ''run-1'' ?B"
  let ?chunk = "''[12:00:00] [DONE] Total duration: 42s'' @ [nl]"
  have h1: "activeRuns ?R ''run-1'' = Some ?a"
    by (simp add: register_def persistRunState_def schedulePersist_def empty_registry_def
          open_pr_run_def startRun_state_def)
  have h2: "status (state ?a) = running" by (simp add: open_pr_run_def startRun_state_def)
  have h3: "runMode (state ?a) = foreground" by (simp add: open_pr_run_def startRun_state_def)
  have u1: "map_option prUrl (getRunById ?R1 ''run-1'') = Some (Some ''https://github.com/o/r/pull/7'')"
    by code_simp
  have ready: "merge_status (snd (refreshRunPrStatus (Inr mergeable_view) ''run-1'' ?R1)) ''run-1''
      = Some pr_ready" by code_simp
  have conflict: "merge_status (snd (refreshRunPrStatus (Inr conflicting_view) ''run-1'' ?R1)) ''run-1''
      = Some pr_conflict" by code_simp
  note t = auto_merge_after_completion[OF h1 h2, of dead_world "Some 0" "[]" "[]"
      "Inr mergeable_view" None "Inr mergeable_view", unfolded Let_def, THEN conjunct1, rule_format, OF h3]
  note c = auto_merge_after_completion[OF h1 h2, of dead_world "Some 0" "[]" "[]"
      "Inr conflicting_view" None "Inr mergeable_view", unfolded Let_def, THEN conjunct1, rule_format, OF h3]
  from t u1 ready have s1: "auto_merge_started ''run-1'' ?R ?R1"
    by (auto simp: truthy_def open_pr_run_def startRun_state_def)
  from t u1 ready have m1: "merge_requested ?R1
      (then_auto_merge (Inr mergeable_view) None (Inr mergeable_view) ''run-1'' ?R ?R1)"
    by (auto simp: truthy_def open_pr_run_def startRun_state_def)
  from c u1 conflict have m2: "\<not> merge_requested ?R1
      (then_auto_merge (Inr conflicting_view) None (Inr mergeable_view) ''run-1'' ?R ?R1)"
    by auto
  have g1: "activeRuns ?B ''run-1'' = Some ?b"
    by (simp add: register_def persistRunState_def schedulePersist_def empty_registry_def
          open_pr_bg_run_def startRun_state_def)
  have g2: "status (state ?b) = running" by (simp add: open_pr_bg_run_def startRun_state_def)
  have g3: "\<not> isProcessAlive dead_world (pid (state ?b))" by code_simp
  have g4: "(case logFilePath (state ?b) of None \<Rightarrow> Some ([], logFileOffset (state ?b))
         | Some path \<Rightarrow> readNewLogChunk dead_world path (logFileOffset (state ?b))) = Some (?chunk, 39)"
    by (simp add: open_pr_bg_run_def startRun_state_def dead_world_def)
  have u2: "map_option prUrl (getRunById ?B1 ''run-1'') = Some (Some ''https://github.com/o/r/pull/7'')"
    by code_simp
  have u3: "map_option status (getRunById ?B1 ''run-1'') = Some run_completed"
    by code_simp
  have ready2: "merge_status (snd (refreshRunPrStatus (Inr mergeable_view) ''run-1'' ?B1)) ''run-1''
      = Some pr_ready" by code_simp
  note p = auto_merge_after_completion[OF g1 g2, of dead_world "Some 0" "[]" "[]"
      "Inr mergeable_view" None "Inr mergeable_view" ?chunk 39, unfolded Let_def, THEN conjunct2, rule_format,
      OF conjI[OF g3 g4]]
  from p u2 u3 ready2 have m3: "merge_requested ?B1
      (then_auto_merge (Inr mergeable_view) None (Inr mergeable_view) ''run-1'' ?B ?B1)"
    by (auto simp: truthy_def open_pr_bg_run_def startRun_state_def)
  from h1 h2 h3 s1 m1 m2 g1 g2 g3 m3 show ?thesis by simp
qed

end
